theory Spec2Isabelle
  imports Main "HOL-Library.Sublist"
begin

section \<open>PhotoSortr: the sorting session and the duplicate detector\<close>

text \<open>
  A shallow embedding of \<^verbatim>\<open>duplicate_detector.py\<close>, \<^verbatim>\<open>state_manager.py\<close>,
  \<^verbatim>\<open>folder_manager.py\<close> and \<^verbatim>\<open>sorter.py\<close>.

  Python exceptions are values of \<open>py_error\<close>; a function that can raise returns
  \<open>py_error + 'a\<close> with \<open>Inl\<close> for the exception. Python dictionaries whose
  iteration order is observed (the hash database) are association lists in insertion
  order. The file system is a map from path strings to nodes; paths are compared as
  written (POSIX separators, no normalisation, no links).
\<close>

subsection \<open>Exceptions\<close>

datatype py_error =
    IOError | ValueError | TypeError | IndexError | UnicodeDecodeError
  | FileNotFoundError | FileExistsError | NotADirectoryError | ShutilError | RuntimeError
  | KeyboardInterrupt

subsection \<open>Strings and paths (the parts of \<^verbatim>\<open>str\<close> and \<^verbatim>\<open>os.path\<close> the code calls)\<close>

type_synonym path = string

text \<open>\<^verbatim>\<open>posixpath.join(a, b)\<close> for two components.\<close>

definition path_join :: "path \<Rightarrow> path \<Rightarrow> path" where
  "path_join a b =
     (if take 1 b = ''/'' then b
      else if a = [] \<or> take 1 (rev a) = ''/'' then a @ b
      else a @ ''/'' @ b)"

text \<open>\<^verbatim>\<open>os.path.basename(p)\<close>: everything after the last separator.\<close>

definition basename :: "path \<Rightarrow> string" where
  "basename p = rev (takeWhile (\<lambda>c. c \<noteq> CHR ''/'') (rev p))"

text \<open>The directory part that \<open>basename\<close> cuts off, with its final separator.\<close>

definition dirpart :: "path \<Rightarrow> string" where
  "dirpart p = rev (dropWhile (\<lambda>c. c \<noteq> CHR ''/'') (rev p))"

text \<open>
  \<^verbatim>\<open>os.path.dirname(p)\<close>: the directory part without its final separators, unless it
  is made of separators only.
\<close>

definition only_slashes :: "string \<Rightarrow> bool" where
  "only_slashes d = (dropWhile (\<lambda>c. c = CHR ''/'') d = [])"

definition dirname :: "path \<Rightarrow> path" where
  "dirname p =
     (if only_slashes (dirpart p) then dirpart p
      else rev (dropWhile (\<lambda>c. c = CHR ''/'') (rev (dirpart p))))"

text \<open>
  \<^verbatim>\<open>os.path.splitext(p)\<close>: the extension starts at the last dot of the last
  component; leading dots of that component do not start an extension.
\<close>

definition splitext :: "path \<Rightarrow> string \<times> string" where
  "splitext p =
     (let f = basename p;
          ext = rev (takeWhile (\<lambda>c. c \<noteq> CHR ''.'') (rev f));
          stem = take (length f - length ext - 1) f
      in if CHR ''.'' \<notin> set f then (p, [])
         else if dropWhile (\<lambda>c. c = CHR ''.'') stem = [] then (p, [])
         else (dirpart p @ stem, CHR ''.'' # ext))"

text \<open>
  \<^verbatim>\<open>p.split('/')\<close>, and a path written in normal form: no empty component (no doubled
  or final separator) and no component \<^verbatim>\<open>.\<close> or \<^verbatim>\<open>..\<close>. Paths are compared as
  written, and only a path in this form has no other spelling.
\<close>

fun split_slash :: "string \<Rightarrow> string \<Rightarrow> string list" where
  "split_slash acc [] = [rev acc]"
| "split_slash acc (c # cs) =
     (if c = CHR ''/'' then rev acc # split_slash [] cs else split_slash (c # acc) cs)"

definition normal_form :: "path \<Rightarrow> bool" where
  "normal_form p =
     list_all (\<lambda>c. c \<noteq> [] \<and> c \<noteq> ''.'' \<and> c \<noteq> ''..'')
       (split_slash [] (if take 1 p = ''/'' then drop 1 p else p))"

text \<open>\<^verbatim>\<open>str(n)\<close> for a non-negative counter.\<close>

fun str_nat :: "nat \<Rightarrow> string" where
  "str_nat n =
     (if n < 10 then [char_of (48 + n)]
      else str_nat (n div 10) @ [char_of (48 + n mod 10)])"

declare str_nat.simps [simp del]

text \<open>\<^verbatim>\<open>str.strip()\<close> and \<^verbatim>\<open>str.upper()\<close> on ASCII.\<close>

definition is_space :: "char \<Rightarrow> bool" where
  "is_space c = (let n = (of_char c :: nat) in (9 \<le> n \<and> n \<le> 13) \<or> (28 \<le> n \<and> n \<le> 32))"

definition strip :: "string \<Rightarrow> string" where
  "strip s = rev (dropWhile is_space (rev (dropWhile is_space s)))"

definition upper :: "char \<Rightarrow> char" where
  "upper c = (let n = (of_char c :: nat) in if 97 \<le> n \<and> n \<le> 122 then char_of (n - 32) else c)"

definition isdigit :: "char \<Rightarrow> bool" where
  "isdigit c = (let n = (of_char c :: nat) in 48 \<le> n \<and> n \<le> 57)"

definition int_of_digit :: "char \<Rightarrow> int" where
  "int_of_digit c = int (of_char c) - 48"

text \<open>Python's truth value of an \<^verbatim>\<open>Optional[str]\<close>: neither \<^verbatim>\<open>None\<close> nor empty.\<close>

definition truthy :: "string option \<Rightarrow> bool" where
  "truthy v = (case v of None \<Rightarrow> False | Some s \<Rightarrow> s \<noteq> [])"

subsection \<open>The file system\<close>

datatype node = File string | Dir

type_synonym filesystem = "path \<Rightarrow> node option"

definition path_exists :: "filesystem \<Rightarrow> path \<Rightarrow> bool" where
  "path_exists fs p = (fs p \<noteq> None)"

definition isdir :: "filesystem \<Rightarrow> path \<Rightarrow> bool" where
  "isdir fs p = (fs p = Some Dir)"

text \<open>
  \<^verbatim>\<open>os.makedirs(p, exist_ok=True)\<close>, which the code calls only after
  \<^verbatim>\<open>os.path.exists(p)\<close> was false.
\<close>

definition makedirs :: "filesystem \<Rightarrow> path \<Rightarrow> filesystem" where
  "makedirs fs p = fs(p \<mapsto> Dir)"

text \<open>
  What stops the operating system from putting an entry at \<open>p\<close>: the folder \<open>p\<close>
  lies in is missing, or is a file. The current directory and the root are always there.
\<close>

definition parent_error :: "filesystem \<Rightarrow> path \<Rightarrow> py_error option" where
  "parent_error fs p =
     (if only_slashes (dirname p) then None
      else (case fs (dirname p) of
              None \<Rightarrow> Some FileNotFoundError
            | Some (File bytes) \<Rightarrow> Some NotADirectoryError
            | Some Dir \<Rightarrow> None))"

text \<open>
  \<^verbatim>\<open>shutil.move(src, dst)\<close>. A destination that is a directory receives the source
  under its own base name, and the call raises when that name is taken there. Any other
  destination is the new name of the source: an existing file is replaced, and the call
  raises when the source is missing, when the folder of the destination is missing or is
  a file, and when a directory is moved onto a file.
\<close>

definition shutil_basename :: "path \<Rightarrow> string" where
  "shutil_basename p = basename (rev (dropWhile (\<lambda>c. c = CHR ''/'') (rev p)))"

definition shutil_move :: "filesystem \<Rightarrow> path \<Rightarrow> path \<Rightarrow> py_error + filesystem" where
  "shutil_move fs src dst =
     (if isdir fs dst then
        (if src = dst then Inr fs
         else if path_exists fs (path_join dst (shutil_basename src)) then Inl ShutilError
         else (case fs src of
                 None \<Rightarrow> Inl FileNotFoundError
               | Some n \<Rightarrow> Inr ((fs(src := None))(path_join dst (shutil_basename src) \<mapsto> n))))
      else
        (case fs src of
           None \<Rightarrow> Inl FileNotFoundError
         | Some n \<Rightarrow>
             (case parent_error fs dst of
                Some e \<Rightarrow> Inl e
              | None \<Rightarrow>
                  if n = Dir \<and> path_exists fs dst then Inl FileExistsError
                  else Inr ((fs(src := None))(dst \<mapsto> n)))))"

subsection \<open>\<^verbatim>\<open>folder_manager.py\<close>\<close>

text \<open>
  The collision loop of \<^verbatim>\<open>move_photo\<close>:
  \<^verbatim>\<open>while os.path.exists(dest_path): dest_path = join(dest_folder, f"{base}_{counter}{ext}"); counter += 1\<close>.
  It ends only when a free name is found, so it is a partial function.
\<close>

partial_function (option) free_dest_path ::
  "filesystem \<Rightarrow> path \<Rightarrow> string \<Rightarrow> string \<Rightarrow> path \<Rightarrow> nat \<Rightarrow> path option" where
  "free_dest_path fs dest_folder base ext dest_path counter =
     (if path_exists fs dest_path
      then free_dest_path fs dest_folder base ext
             (path_join dest_folder (base @ ''_'' @ str_nat counter @ ext)) (counter + 1)
      else Some dest_path)"

definition move_photo ::
  "filesystem \<Rightarrow> path \<Rightarrow> path \<Rightarrow> (py_error + filesystem \<times> path) option" where
  "move_photo fs src dest_folder =
     (if \<not> path_exists fs src then Some (Inl FileNotFoundError)
      else if \<not> path_exists fs dest_folder then Some (Inl ValueError)
      else if \<not> isdir fs dest_folder then Some (Inl ValueError)
      else
        (let filename = basename src;
             base = fst (splitext filename);
             ext = snd (splitext filename)
         in case free_dest_path fs dest_folder base ext (path_join dest_folder filename) 1 of
              None \<Rightarrow> None
            | Some dest_path \<Rightarrow>
                (case shutil_move fs src dest_path of
                   Inl e \<Rightarrow> Some (Inl e)
                 | Inr fs' \<Rightarrow> Some (Inr (fs', dest_path)))))"

definition invalid_chars :: "char list" where
  "invalid_chars =
     [CHR ''/'', CHR 0x5C, CHR '':'', CHR ''*'', CHR 0x3F, CHR 0x22, CHR ''<'', CHR ''>'', CHR ''|'']"

text \<open>
  \<^verbatim>\<open>create_event_folder\<close>: rejects an empty or blank name, a name with a reserved
  character and a folder that exists; otherwise creates the folder and returns its path.
  The names \<^verbatim>\<open>.\<close> and \<^verbatim>\<open>..\<close> are the root itself and the folder it lies in, which
  exist when the root is a directory.
\<close>

definition create_event_folder ::
  "filesystem \<Rightarrow> path \<Rightarrow> string \<Rightarrow> py_error + filesystem \<times> path" where
  "create_event_folder fs year_dir name =
     (if name = [] \<or> strip name = [] then Inl ValueError
      else if set invalid_chars \<inter> set (strip name) \<noteq> {} then Inl ValueError
      else
        (let folder_path = path_join year_dir (strip name) in
         if path_exists fs folder_path then Inl FileExistsError
         else if (strip name = ''.'' \<or> strip name = ''..'') \<and> isdir fs year_dir
         then Inl FileExistsError
         else Inr (makedirs fs folder_path, folder_path)))"

text \<open>
  \<^verbatim>\<open>list_event_folders\<close>, given what \<^verbatim>\<open>os.listdir(year_dir)\<close> returned: the
  entries that are not hidden and are directories, in the order listed.
\<close>

definition list_event_folders :: "filesystem \<Rightarrow> string list \<Rightarrow> path \<Rightarrow> string list" where
  "list_event_folders fs listing year_dir =
     (if \<not> path_exists fs year_dir then []
      else if \<not> isdir fs year_dir then []
      else filter (\<lambda>item. take 1 item \<noteq> ''.'' \<and> isdir fs (path_join year_dir item)) listing)"

subsection \<open>The libraries behind the duplicate detector\<close>

text \<open>
  \<^verbatim>\<open>hashlib\<close>, \<^verbatim>\<open>PIL\<close>, \<^verbatim>\<open>imagehash\<close> and \<^verbatim>\<open>os.path.relpath\<close> are not code of
  the repository; the detector takes them as parameters. A perceptual hash is the
  flattened boolean array of an \<^verbatim>\<open>ImageHash\<close>.
  \<^item> \<open>perceptual_hash_available\<close> is the module flag \<^verbatim>\<open>PERCEPTUAL_HASH_AVAILABLE\<close>;
  \<^item> \<open>sha256_hexdigest\<close> maps a file's bytes to the digest;
  \<^item> \<open>image_phash\<close> is \<^verbatim>\<open>str(imagehash.phash(Image.open(f)))\<close>, \<open>None\<close> when it raises;
  \<^item> \<open>hex_to_hash\<close> is \<^verbatim>\<open>imagehash.hex_to_hash\<close>, \<open>None\<close> for its \<^verbatim>\<open>ValueError\<close>;
  \<^item> \<open>hash_sub\<close> is \<^verbatim>\<open>ImageHash.__sub__\<close>, the Hamming distance, which raises
    \<^verbatim>\<open>TypeError\<close> on hashes of different shapes.
\<close>

record library =
  perceptual_hash_available :: bool
  sha256_hexdigest :: "string \<Rightarrow> string"
  image_phash :: "string \<Rightarrow> string option"
  hex_to_hash :: "string \<Rightarrow> bool list option"
  hash_sub :: "bool list \<Rightarrow> bool list \<Rightarrow> py_error + int"
  relpath :: "path \<Rightarrow> path \<Rightarrow> path"

subsection \<open>\<^verbatim>\<open>duplicate_detector.py\<close>\<close>

record hash_entry =
  sha256 :: "string option"
  phash :: "string option"

text \<open>
  \<^verbatim>\<open>HashDatabase\<close>: \<open>hashes\<close> is the dictionary from stored path to entry, in
  insertion order.
\<close>

record hash_database =
  db_root_dir :: path
  hashes :: "(path \<times> hash_entry) list"

text \<open>\<^verbatim>\<open>d[k] = v\<close>: an existing key keeps its position, a new key goes last.\<close>

fun dict_set :: "'k \<Rightarrow> 'v \<Rightarrow> ('k \<times> 'v) list \<Rightarrow> ('k \<times> 'v) list" where
  "dict_set k v [] = [(k, v)]"
| "dict_set k v ((k', v') # rest) =
     (if k' = k then (k, v) # rest else (k', v') # dict_set k v rest)"

definition rel_path_of :: "library \<Rightarrow> hash_database \<Rightarrow> path \<Rightarrow> path" where
  "rel_path_of lib db filepath =
     (if prefix (db_root_dir db) filepath then relpath lib filepath (db_root_dir db) else filepath)"

definition add_hash ::
  "library \<Rightarrow> hash_database \<Rightarrow> path \<Rightarrow> string \<Rightarrow> string option \<Rightarrow> hash_database" where
  "add_hash lib db filepath sha phsh =
     db\<lparr>hashes := dict_set (rel_path_of lib db filepath) \<lparr>sha256 = Some sha, phash = phsh\<rparr> (hashes db)\<rparr>"

fun get_by_sha256_in :: "(path \<times> hash_entry) list \<Rightarrow> string \<Rightarrow> path option" where
  "get_by_sha256_in [] sha = None"
| "get_by_sha256_in ((filepath, data) # rest) sha =
     (if sha256 data = Some sha then Some filepath else get_by_sha256_in rest sha)"

definition get_by_sha256 :: "hash_database \<Rightarrow> string \<Rightarrow> path option" where
  "get_by_sha256 db sha = get_by_sha256_in (hashes db) sha"

text \<open>
  The loop of \<^verbatim>\<open>find_similar_by_phash\<close> over \<^verbatim>\<open>self.hashes.items()\<close>, carrying
  \<^verbatim>\<open>(best_match, best_distance)\<close>. An entry without a stored perceptual hash, or with
  one that does not parse, is passed over; a \<^verbatim>\<open>TypeError\<close> of the subtraction is not
  caught and ends the loop.
\<close>

fun phash_loop ::
  "library \<Rightarrow> bool list \<Rightarrow> (path \<times> hash_entry) list \<Rightarrow> path option \<times> int
     \<Rightarrow> py_error + (path option \<times> int)" where
  "phash_loop lib search_hash [] best = Inr best"
| "phash_loop lib search_hash ((filepath, data) # rest) best =
     (case phash data of
        None \<Rightarrow> phash_loop lib search_hash rest best
      | Some stored_phash \<Rightarrow>
          if stored_phash = [] then phash_loop lib search_hash rest best
          else
            (case hex_to_hash lib stored_phash of
               None \<Rightarrow> phash_loop lib search_hash rest best
             | Some stored_hash \<Rightarrow>
                 (case hash_sub lib search_hash stored_hash of
                    Inl e \<Rightarrow> Inl e
                  | Inr distance \<Rightarrow>
                      if distance < snd best
                      then phash_loop lib search_hash rest (Some filepath, distance)
                      else phash_loop lib search_hash rest best)))"

definition find_similar_by_phash ::
  "library \<Rightarrow> hash_database \<Rightarrow> string \<Rightarrow> int \<Rightarrow> py_error + (path \<times> int) option" where
  "find_similar_by_phash lib db phsh threshold =
     (if \<not> perceptual_hash_available lib then Inr None
      else
        (case hex_to_hash lib phsh of
           None \<Rightarrow> Inr None
         | Some search_hash \<Rightarrow>
             (case phash_loop lib search_hash (hashes db) (None, threshold + 1) of
                Inl e \<Rightarrow> Inl e
              | Inr (None, best_distance) \<Rightarrow> Inr None
              | Inr (Some best_match, best_distance) \<Rightarrow>
                  if best_match \<noteq> [] \<and> best_distance \<le> threshold
                  then Inr (Some (best_match, best_distance))
                  else Inr None)))"

text \<open>
  \<^verbatim>\<open>compute_file_hash\<close> turns every failure to read the file into \<^verbatim>\<open>IOError\<close>;
  \<^verbatim>\<open>compute_perceptual_hash\<close> turns every failure into \<^verbatim>\<open>None\<close>.
\<close>

definition compute_file_hash :: "library \<Rightarrow> filesystem \<Rightarrow> path \<Rightarrow> py_error + string" where
  "compute_file_hash lib fs filepath =
     (case fs filepath of
        Some (File bytes) \<Rightarrow> Inr (sha256_hexdigest lib bytes)
      | _ \<Rightarrow> Inl IOError)"

definition compute_perceptual_hash :: "library \<Rightarrow> filesystem \<Rightarrow> path \<Rightarrow> string option" where
  "compute_perceptual_hash lib fs filepath =
     (if \<not> perceptual_hash_available lib then None
      else (case fs filepath of
              Some (File bytes) \<Rightarrow> image_phash lib bytes
            | _ \<Rightarrow> None))"

text \<open>
  \<^verbatim>\<open>is_duplicate\<close> returns the triple
  \<^verbatim>\<open>(is_duplicate, duplicate_type, original_file)\<close>.
\<close>

definition is_duplicate ::
  "library \<Rightarrow> filesystem \<Rightarrow> path \<Rightarrow> hash_database \<Rightarrow> int
     \<Rightarrow> py_error + (bool \<times> string option \<times> path option)" where
  "is_duplicate lib fs filepath hash_db threshold =
     (case compute_file_hash lib fs filepath of
        Inl e \<Rightarrow> Inr (False, None, None)
      | Inr sha \<Rightarrow>
          (let original = get_by_sha256 hash_db sha in
           if truthy original then Inr (True, Some ''exact'', original)
           else if \<not> perceptual_hash_available lib then Inr (False, None, None)
           else
             (case compute_perceptual_hash lib fs filepath of
                None \<Rightarrow> Inr (False, None, None)
              | Some phsh \<Rightarrow>
                  if phsh = [] then Inr (False, None, None)
                  else
                    (case find_similar_by_phash lib hash_db phsh threshold of
                       Inl e \<Rightarrow> Inl e
                     | Inr None \<Rightarrow> Inr (False, None, None)
                     | Inr (Some (original_file, distance)) \<Rightarrow>
                         Inr (True, Some ''similar'', Some original_file)))))"

text \<open>
  \<^verbatim>\<open>add_to_hash_db\<close>: any exception, and so a file that cannot be read at
  \<open>filepath\<close>, leaves the database as it was (a warning is printed).
\<close>

definition add_to_hash_db ::
  "library \<Rightarrow> filesystem \<Rightarrow> path \<Rightarrow> hash_database \<Rightarrow> hash_database" where
  "add_to_hash_db lib fs filepath hash_db =
     (case compute_file_hash lib fs filepath of
        Inl e \<Rightarrow> hash_db
      | Inr sha \<Rightarrow>
          add_hash lib hash_db filepath sha
            (if perceptual_hash_available lib then compute_perceptual_hash lib fs filepath
             else None))"

subsection \<open>\<^verbatim>\<open>state_manager.py\<close>\<close>

text \<open>
  The sorter records two kinds of action, under the tags \<^verbatim>\<open>'moved'\<close> and
  \<^verbatim>\<open>'deleted'\<close>.
\<close>

datatype action_kind = Moved | Deleted

text \<open>An entry of the action history: \<^verbatim>\<open>{'action': ..., 'old_path': ..., 'new_path': ...}\<close>.\<close>

record history_action =
  action :: action_kind
  old_path :: path
  new_path :: path

text \<open>
  The state dictionary. A field that is \<open>None\<close> is a key the dictionary does not have.
\<close>

record state_dict =
  last_index :: "int option"
  st_sorted_count :: "int option"
  st_skipped_count :: "int option"
  st_deleted_count :: "int option"
  st_duplicate_count :: "int option"
  skipped_files :: "path list option"
  action_history :: "history_action list option"

text \<open>
  What \<^verbatim>\<open>load_state\<close> finds on disk: no file, a file that cannot be opened, bytes
  that are not UTF-8, text that is not JSON, a JSON object with some of the keys, a JSON
  list or string (with the flag: every one of the seven key names is in it, so that no
  \<^verbatim>\<open>key not in state\<close> holds), or a JSON number, truth value or null.
\<close>

datatype state_file =
    NoFile | Unreadable | NotUtf8 | NotJson
  | JsonObject state_dict | JsonSequence bool | JsonScalar

text \<open>
  What \<^verbatim>\<open>load_state\<close> returns: a dictionary, or the JSON list or string as it was
  read.
\<close>

datatype loaded = Loaded state_dict | LoadedSequence

definition or_default :: "'a option \<Rightarrow> 'a \<Rightarrow> 'a option" where
  "or_default v d = (case v of None \<Rightarrow> Some d | Some x \<Rightarrow> Some x)"

definition load_state :: "state_file \<Rightarrow> py_error + loaded" where
  "load_state f =
     (case f of
        NoFile \<Rightarrow>
          Inr (Loaded
            \<lparr>last_index = Some 0, st_sorted_count = Some 0, st_skipped_count = Some 0,
             st_deleted_count = Some 0, st_duplicate_count = Some 0,
             skipped_files = Some [], action_history = Some []\<rparr>)
      | JsonObject st \<Rightarrow>
          Inr (Loaded
            \<lparr>last_index = or_default (last_index st) 0,
             st_sorted_count = or_default (st_sorted_count st) 0,
             st_skipped_count = or_default (st_skipped_count st) 0,
             st_deleted_count = or_default (st_deleted_count st) 0,
             st_duplicate_count = or_default (st_duplicate_count st) 0,
             skipped_files = or_default (skipped_files st) [],
             action_history = or_default (action_history st) []\<rparr>)
      | JsonSequence all_keys \<Rightarrow> if all_keys then Inr LoadedSequence else Inl TypeError
      | JsonScalar \<Rightarrow> Inl TypeError
      | NotUtf8 \<Rightarrow> Inl UnicodeDecodeError
      | Unreadable \<Rightarrow>
          Inr (Loaded
            \<lparr>last_index = Some 0, st_sorted_count = Some 0, st_skipped_count = Some 0,
             st_deleted_count = Some 0, st_duplicate_count = Some 0,
             skipped_files = Some [], action_history = None\<rparr>)
      | NotJson \<Rightarrow>
          Inr (Loaded
            \<lparr>last_index = Some 0, st_sorted_count = Some 0, st_skipped_count = Some 0,
             st_deleted_count = Some 0, st_duplicate_count = Some 0,
             skipped_files = Some [], action_history = None\<rparr>))"

definition add_skipped_file :: "state_dict \<Rightarrow> path \<Rightarrow> state_dict" where
  "add_skipped_file st filepath =
     (case skipped_files st of
        None \<Rightarrow> st\<lparr>skipped_files := Some [filepath]\<rparr>
      | Some fs \<Rightarrow> if filepath \<in> set fs then st else st\<lparr>skipped_files := Some (fs @ [filepath])\<rparr>)"

definition add_action_to_history :: "state_dict \<Rightarrow> history_action \<Rightarrow> state_dict" where
  "add_action_to_history st a =
     (case action_history st of
        None \<Rightarrow> st\<lparr>action_history := Some [a]\<rparr>
      | Some h \<Rightarrow> if a \<in> set h then st else st\<lparr>action_history := Some (h @ [a])\<rparr>)"

text \<open>
  \<^verbatim>\<open>get_last_action\<close> and \<^verbatim>\<open>pop_last_action\<close> create the key when it is absent,
  so both return the dictionary as they leave it.
\<close>

definition get_last_action :: "state_dict \<Rightarrow> state_dict \<times> history_action option" where
  "get_last_action st =
     (case action_history st of
        None \<Rightarrow> (st\<lparr>action_history := Some []\<rparr>, None)
      | Some h \<Rightarrow> if h = [] then (st, None) else (st, Some (last h)))"

definition pop_last_action :: "state_dict \<Rightarrow> state_dict" where
  "pop_last_action st =
     (case action_history st of
        None \<Rightarrow> st\<lparr>action_history := Some []\<rparr>
      | Some h \<Rightarrow> if h = [] then st else st\<lparr>action_history := Some (butlast h)\<rparr>)"

subsection \<open>\<^verbatim>\<open>sorter.py\<close>: the \<^verbatim>\<open>PhotoSorter\<close>\<close>

text \<open>
  The attributes of \<^verbatim>\<open>PhotoSorter\<close>, and with them the file system it works on
  (\<open>disk\<close>). Writing the state file, the hash database file and the log is not part of
  the model; \<^verbatim>\<open>save_state\<close> is its copy of the counters into the dictionary.
\<close>

record photo_sorter =
  root_dir :: path
  trash_dir :: path
  images :: "path list"
  current_index :: int
  sorted_count :: int
  skipped_count :: int
  deleted_count :: int
  duplicate_count :: int
  state :: state_dict
  auto_move_duplicates :: bool
  duplicate_threshold :: int
  hash_db :: hash_database
  disk :: filesystem

definition save_state :: "photo_sorter \<Rightarrow> photo_sorter" where
  "save_state s =
     s\<lparr>state := (state s)\<lparr>last_index := Some (current_index s),
                           st_sorted_count := Some (sorted_count s),
                           st_skipped_count := Some (skipped_count s),
                           st_deleted_count := Some (deleted_count s),
                           st_duplicate_count := Some (duplicate_count s)\<rparr>\<rparr>"

text \<open>
  \<^verbatim>\<open>_handle_duplicate\<close>: creates the Duplicates folder when nothing is at its path
  and moves the photo there; a failed move is reported and nothing else happens.
\<close>

definition handle_duplicate :: "photo_sorter \<Rightarrow> path \<Rightarrow> photo_sorter option" where
  "handle_duplicate s photo_path =
     (let duplicates_folder = path_join (root_dir s) ''Duplicates'';
          fs1 = (if \<not> path_exists (disk s) duplicates_folder
                 then makedirs (disk s) duplicates_folder else disk s)
      in case move_photo fs1 photo_path duplicates_folder of
           None \<Rightarrow> None
         | Some (Inl e) \<Rightarrow> Some (s\<lparr>disk := fs1\<rparr>)
         | Some (Inr (fs2, dest_path)) \<Rightarrow> Some (s\<lparr>disk := fs2\<rparr>))"

text \<open>\<^verbatim>\<open>_move_to_trash\<close>: a failed move is reported and swallowed.\<close>

definition move_to_trash :: "photo_sorter \<Rightarrow> path \<Rightarrow> photo_sorter" where
  "move_to_trash s photo_path =
     (case shutil_move (disk s) photo_path (trash_dir s) of
        Inl e \<Rightarrow> s
      | Inr fs' \<Rightarrow> s\<lparr>disk := fs'\<rparr>)"

text \<open>What \<^verbatim>\<open>_undo_last_action\<close> prints, one constructor for each of its messages.\<close>

datatype undo_report =
    NoActionsToUndo
  | RestoredToOriginal path
  | RestoredFromTrash path
  | CannotUndoFileNotFound path
  | CannotUndoNotInTrash
  | ErrorUndoing py_error

definition undo_last_action :: "photo_sorter \<Rightarrow> photo_sorter \<times> undo_report" where
  "undo_last_action s =
     (if action_history (state s) = None \<or> action_history (state s) = Some []
      then (s, NoActionsToUndo)
      else
        (case snd (get_last_action (state s)) of
           None \<Rightarrow> (s\<lparr>state := fst (get_last_action (state s))\<rparr>, ErrorUndoing TypeError)
         | Some last_action \<Rightarrow>
             (case action last_action of
                Moved \<Rightarrow>
                  if path_exists (disk s) (new_path last_action)
                  then
                    (case shutil_move (disk s) (new_path last_action) (old_path last_action) of
                       Inl e \<Rightarrow> (s, ErrorUndoing e)
                     | Inr fs' \<Rightarrow>
                         (save_state
                            (s\<lparr>disk := fs',
                               sorted_count := sorted_count s - 1,
                               current_index := current_index s - 1,
                               state := pop_last_action (state s)\<rparr>),
                          RestoredToOriginal (basename (old_path last_action))))
                  else (s, CannotUndoFileNotFound (new_path last_action))
              | Deleted \<Rightarrow>
                  if path_exists (disk s) (new_path last_action)
                  then
                    (case shutil_move (disk s) (new_path last_action) (old_path last_action) of
                       Inl e \<Rightarrow> (s, ErrorUndoing e)
                     | Inr fs' \<Rightarrow>
                         (save_state
                            (s\<lparr>disk := fs',
                               deleted_count := deleted_count s - 1,
                               current_index := current_index s - 1,
                               state := pop_last_action (state s)\<rparr>),
                          RestoredFromTrash (basename (old_path last_action))))
                  else (s, CannotUndoNotInTrash))))"

subsection \<open>\<^verbatim>\<open>sorter.py\<close>: one photo and the loop\<close>

text \<open>
  What the user and the viewer do during one pass of the loop: whether the viewer
  fails to open the image, what \<^verbatim>\<open>os.listdir\<close> returns for the root, the key read
  for the menu, the line typed for a new folder, the key read for the deletion prompt,
  and the key read at a "press any key" prompt.
\<close>

record user_input =
  viewer_fails :: bool
  listing :: "string list"
  keypress :: char
  folder_name_line :: string
  confirm_key :: char
  ack_key :: char

text \<open>\<^verbatim>\<open>cli_ui\<close>: Ctrl+C raises, any other key is returned in upper case.\<close>

definition get_keypress :: "char \<Rightarrow> py_error + char" where
  "get_keypress c = (if c = CHR 0x03 then Inl KeyboardInterrupt else Inr (upper c))"

definition prompt_new_folder_name :: "string \<Rightarrow> string option" where
  "prompt_new_folder_name line = (if strip line = [] then None else Some (strip line))"

definition prompt_confirmation :: "char \<Rightarrow> bool" where
  "prompt_confirmation c = (upper c = CHR ''Y'')"

text \<open>\<^verbatim>\<open>os_viewer.open_image\<close>: \<open>None\<close> when the viewer was started.\<close>

definition open_image :: "filesystem \<Rightarrow> bool \<Rightarrow> path \<Rightarrow> py_error option" where
  "open_image fs fails p =
     (if \<not> path_exists fs p then Some FileNotFoundError
      else if fails then Some RuntimeError
      else None)"

datatype action_result =
  ResMoved | ResSkipped | ResDeleted | ResDuplicate | ResQuit | ResRetry

text \<open>
  "Press any key to continue" followed by \<^verbatim>\<open>return 'retry'\<close>: the key may be Ctrl+C.
\<close>

definition press_any_key_retry ::
  "user_input \<Rightarrow> photo_sorter \<Rightarrow> photo_sorter \<times> (py_error + action_result)" where
  "press_any_key_retry inp s =
     (case get_keypress (ack_key inp) of
        Inl e \<Rightarrow> (s, Inl e)
      | Inr k \<Rightarrow> (s, Inr ResRetry))"

text \<open>
  \<^verbatim>\<open>_handle_choice\<close>. The result is the sorter as the call leaves it, with the
  returned string or the exception that escapes.
\<close>

definition handle_choice ::
  "user_input \<Rightarrow> photo_sorter \<Rightarrow> char \<Rightarrow> path \<Rightarrow> string list
     \<Rightarrow> (photo_sorter \<times> (py_error + action_result)) option" where
  "handle_choice inp s choice photo_path event_folders =
     (if isdigit choice then
        (let folder_index = int_of_digit choice - 1 in
         if 0 \<le> folder_index \<and> folder_index < int (length event_folders) then
           (let folder_name = event_folders ! nat folder_index;
                dest_folder = path_join (root_dir s) folder_name
            in case move_photo (disk s) photo_path dest_folder of
                 None \<Rightarrow> None
               | Some (Inl e) \<Rightarrow> Some (press_any_key_retry inp s)
               | Some (Inr (fs', new)) \<Rightarrow>
                   Some (s\<lparr>disk := fs',
                           state := add_action_to_history (state s)
                             \<lparr>action = Moved, old_path = photo_path, new_path = new\<rparr>\<rparr>,
                         Inr ResMoved))
         else Some (press_any_key_retry inp s))
      else if choice = CHR ''N'' then
        (case prompt_new_folder_name (folder_name_line inp) of
           None \<Rightarrow> Some (s, Inr ResRetry)
         | Some folder_name \<Rightarrow>
             (case create_event_folder (disk s) (root_dir s) folder_name of
                Inl e \<Rightarrow> Some (press_any_key_retry inp s)
              | Inr (fs1, dest_folder) \<Rightarrow>
                  (case move_photo fs1 photo_path dest_folder of
                     None \<Rightarrow> None
                   | Some (Inl e) \<Rightarrow> Some (press_any_key_retry inp (s\<lparr>disk := fs1\<rparr>))
                   | Some (Inr (fs2, new)) \<Rightarrow>
                       Some (s\<lparr>disk := fs2,
                               state := add_action_to_history (state s)
                                 \<lparr>action = Moved, old_path = photo_path, new_path = new\<rparr>\<rparr>,
                             Inr ResMoved))))
      else if choice = CHR ''S'' then Some (s, Inr ResSkipped)
      else if choice = CHR ''U'' then Some (s, Inr ResDuplicate)
      else if choice = CHR ''D'' then
        (if prompt_confirmation (confirm_key inp) then
           (let s1 = move_to_trash s photo_path;
                filename = basename photo_path;
                trash_file_path = path_join (trash_dir s) filename
            in Some (s1\<lparr>state := add_action_to_history (state s1)
                           \<lparr>action = Deleted, old_path = photo_path,
                            new_path = trash_file_path\<rparr>\<rparr>,
                     Inr ResDeleted))
         else Some (s, Inr ResRetry))
      else if choice = CHR ''Z'' then Some (fst (undo_last_action s), Inr ResRetry)
      else if choice = CHR ''Q'' then Some (s, Inr ResQuit)
      else Some (press_any_key_retry inp s))"

text \<open>How one pass of the loop went.\<close>

datatype outcome =
    Vanished
  | AutoDuplicate
  | ViewerFailed
  | Acted action_result
  | Interrupted
  | Crashed py_error

text \<open>\<^verbatim>\<open>self.images[self.current_index]\<close>, with Python's negative indices.\<close>

definition py_index :: "'a list \<Rightarrow> int \<Rightarrow> py_error + 'a" where
  "py_index xs i =
     (if 0 \<le> i \<and> i < int (length xs) then Inr (xs ! nat i)
      else if i < 0 \<and> - int (length xs) \<le> i then Inr (xs ! nat (int (length xs) + i))
      else Inl IndexError)"

text \<open>
  The pass from "Open image in viewer" on: the viewer, the menu, the choice and what
  the loop does with the result of \<^verbatim>\<open>_handle_choice\<close>. Inside the loop's
  \<^verbatim>\<open>try\<close> the calls modelled here raise nothing but \<^verbatim>\<open>KeyboardInterrupt\<close>, which
  the loop raises again.
\<close>

definition present_photo ::
  "library \<Rightarrow> user_input \<Rightarrow> photo_sorter \<Rightarrow> path \<Rightarrow> (photo_sorter \<times> outcome) option" where
  "present_photo lib inp s photo_path =
     (if open_image (disk s) (viewer_fails inp) photo_path \<noteq> None
      then Some (s\<lparr>current_index := current_index s + 1\<rparr>, ViewerFailed)
      else
        (let event_folders = list_event_folders (disk s) (listing inp) (root_dir s) in
         case get_keypress (keypress inp) of
           Inl e \<Rightarrow> Some (s, Interrupted)
         | Inr choice \<Rightarrow>
             (case handle_choice inp s choice photo_path event_folders of
                None \<Rightarrow> None
              | Some (s1, Inl e) \<Rightarrow> Some (s1, Interrupted)
              | Some (s1, Inr ResQuit) \<Rightarrow> Some (save_state s1, Acted ResQuit)
              | Some (s1, Inr ResMoved) \<Rightarrow>
                  Some (save_state
                          (s1\<lparr>hash_db := add_to_hash_db lib (disk s1) photo_path (hash_db s1),
                              sorted_count := sorted_count s1 + 1,
                              current_index := current_index s1 + 1\<rparr>),
                        Acted ResMoved)
              | Some (s1, Inr ResSkipped) \<Rightarrow>
                  Some (save_state
                          (s1\<lparr>skipped_count := skipped_count s1 + 1,
                              state := add_skipped_file (state s1) photo_path,
                              current_index := current_index s1 + 1\<rparr>),
                        Acted ResSkipped)
              | Some (s1, Inr ResDeleted) \<Rightarrow>
                  Some (save_state
                          (s1\<lparr>deleted_count := deleted_count s1 + 1,
                              current_index := current_index s1 + 1\<rparr>),
                        Acted ResDeleted)
              | Some (s1, Inr ResDuplicate) \<Rightarrow>
                  (case handle_duplicate s1 photo_path of
                     None \<Rightarrow> None
                   | Some s2 \<Rightarrow>
                       Some (save_state
                               (s2\<lparr>duplicate_count := duplicate_count s2 + 1,
                                   current_index := current_index s2 + 1\<rparr>),
                             Acted ResDuplicate))
              | Some (s1, Inr ResRetry) \<Rightarrow> Some (s1, Acted ResRetry))))"

text \<open>One pass of the \<^verbatim>\<open>while\<close> loop of \<^verbatim>\<open>_sorting_loop\<close>.\<close>

definition loop_iteration ::
  "library \<Rightarrow> user_input \<Rightarrow> photo_sorter \<Rightarrow> (photo_sorter \<times> outcome) option" where
  "loop_iteration lib inp s =
     (case py_index (images s) (current_index s) of
        Inl e \<Rightarrow> Some (s, Crashed e)
      | Inr photo_path \<Rightarrow>
          if \<not> path_exists (disk s) photo_path
          then Some (s\<lparr>current_index := current_index s + 1\<rparr>, Vanished)
          else
            (case is_duplicate lib (disk s) photo_path (hash_db s) (duplicate_threshold s) of
               Inl e \<Rightarrow> present_photo lib inp s photo_path
             | Inr (is_dup, dup_type, original_file) \<Rightarrow>
                 if is_dup \<and> auto_move_duplicates s
                 then
                   (case handle_duplicate s photo_path of
                      None \<Rightarrow> None
                    | Some s1 \<Rightarrow>
                        Some (save_state
                                (s1\<lparr>duplicate_count := duplicate_count s1 + 1,
                                    current_index := current_index s1 + 1\<rparr>),
                              AutoDuplicate))
                 else present_photo lib inp s photo_path))"

definition ends_loop :: "outcome \<Rightarrow> bool" where
  "ends_loop out =
     (case out of Acted ResQuit \<Rightarrow> True | Interrupted \<Rightarrow> True | Crashed e \<Rightarrow> True | _ \<Rightarrow> False)"

text \<open>
  \<^verbatim>\<open>_sorting_loop\<close> on the inputs of its first passes: the sorter after them and how
  each pass went. Every pass is given one input; a pass that does not reach the viewer
  or the user ignores it. The loop waits for the user in every pass that presents a
  photo, so a list of inputs gives a prefix of a run.
\<close>

fun sorting_loop ::
  "library \<Rightarrow> user_input list \<Rightarrow> photo_sorter \<Rightarrow> (photo_sorter \<times> outcome list) option" where
  "sorting_loop lib [] s = Some (s, [])"
| "sorting_loop lib (inp # inps) s =
     (if \<not> current_index s < int (length (images s)) then Some (s, [])
      else
        (case loop_iteration lib inp s of
           None \<Rightarrow> None
         | Some (s1, out) \<Rightarrow>
             if ends_loop out then Some (s1, [out])
             else (case sorting_loop lib inps s1 of
                     None \<Rightarrow> None
                   | Some (s2, outs) \<Rightarrow> Some (s2, out # outs))))"

subsection \<open>The nearest stored hash, as the specification words it\<close>

text \<open>
  The distances between a query hash and every stored perceptual hash that can be
  compared with it, with the stored paths, in storage order.
\<close>

fun stored_distances ::
  "library \<Rightarrow> bool list \<Rightarrow> (path \<times> hash_entry) list \<Rightarrow> (path \<times> int) list" where
  "stored_distances lib q [] = []"
| "stored_distances lib q ((p, e) # rest) =
     (case phash e of
        None \<Rightarrow> stored_distances lib q rest
      | Some s \<Rightarrow>
          if s = [] then stored_distances lib q rest
          else
            (case hex_to_hash lib s of
               None \<Rightarrow> stored_distances lib q rest
             | Some h \<Rightarrow>
                 (case hash_sub lib q h of
                    Inl e \<Rightarrow> stored_distances lib q rest
                  | Inr d \<Rightarrow> (p, d) # stored_distances lib q rest)))"

text \<open>One step of the search loop on a pair of \<open>stored_distances\<close>.\<close>

definition upd :: "path option \<times> int \<Rightarrow> path \<times> int \<Rightarrow> path option \<times> int" where
  "upd best c = (if snd c < snd best then (Some (fst c), snd c) else best)"

subsection \<open>The quantities of the counter balance\<close>

text \<open>The four counters together, and the passes that stepped over a photo.\<close>

definition counted :: "photo_sorter \<Rightarrow> int" where
  "counted s = sorted_count s + skipped_count s + deleted_count s + duplicate_count s"

definition stepped_over :: "outcome \<Rightarrow> bool" where
  "stepped_over out = (case out of Vanished \<Rightarrow> True | ViewerFailed \<Rightarrow> True | _ \<Rightarrow> False)"


text \<open>Two sorters with the same image list, cursor, counters and hash database.\<close>

definition same_counters :: "photo_sorter \<Rightarrow> photo_sorter \<Rightarrow> bool" where
  "same_counters s s1 =
     (images s1 = images s \<and> current_index s1 = current_index s
      \<and> sorted_count s1 = sorted_count s \<and> skipped_count s1 = skipped_count s
      \<and> deleted_count s1 = deleted_count s \<and> duplicate_count s1 = duplicate_count s
      \<and> hash_db s1 = hash_db s)"

subsection \<open>A library and a session for the worked examples\<close>

text \<open>
  The theorems below hold for every \<open>library\<close>. The examples need one: hexadecimal
  digits are read four bits each, the distance counts the positions that differ and
  raises on different lengths, a file's digest is its bytes and its perceptual hash is
  its first byte, and \<open>relpath\<close> cuts the root and the separator off.
\<close>

definition hex_digit_bits :: "char \<Rightarrow> bool list option" where
  "hex_digit_bits c =
     (let n = (of_char c :: nat) in
      if 48 \<le> n \<and> n \<le> 57 then Some (map (bit (n - 48)) [3, 2, 1, 0])
      else if 97 \<le> n \<and> n \<le> 102 then Some (map (bit (n - 87)) [3, 2, 1, 0])
      else None)"

fun hex_bits :: "string \<Rightarrow> bool list option" where
  "hex_bits [] = Some []"
| "hex_bits (c # cs) =
     (case hex_digit_bits c of
        None \<Rightarrow> None
      | Some b \<Rightarrow> (case hex_bits cs of None \<Rightarrow> None | Some bs \<Rightarrow> Some (b @ bs)))"

definition hamming :: "bool list \<Rightarrow> bool list \<Rightarrow> py_error + int" where
  "hamming a b =
     (if length a \<noteq> length b then Inl TypeError
      else Inr (int (length (filter (\<lambda>xy. fst xy \<noteq> snd xy) (zip a b)))))"

definition demo_library :: library where
  "demo_library =
     \<lparr>perceptual_hash_available = True,
      sha256_hexdigest = (\<lambda>bytes. bytes),
      image_phash = (\<lambda>bytes. Some (take 1 bytes)),
      hex_to_hash = (\<lambda>s. if s = [] then None else hex_bits s),
      hash_sub = hamming,
      relpath = (\<lambda>p start. drop (length start + 1) p)\<rparr>"

definition demo_moved :: history_action where
  "demo_moved = \<lparr>action = Moved, old_path = ''/r/a.jpg'', new_path = ''/r/V/a.jpg''\<rparr>"

definition demo_deleted :: history_action where
  "demo_deleted = \<lparr>action = Deleted, old_path = ''/r/b.jpg'', new_path = ''/r/.trash/b.jpg''\<rparr>"

definition demo_state :: "history_action list option \<Rightarrow> state_dict" where
  "demo_state h =
     \<lparr>last_index = Some 0, st_sorted_count = Some 0, st_skipped_count = Some 0,
      st_deleted_count = Some 0, st_duplicate_count = Some 0,
      skipped_files = Some [], action_history = h\<rparr>"

definition demo_db :: hash_database where
  "demo_db = \<lparr>db_root_dir = ''/r'', hashes = [(''a.jpg'', \<lparr>sha256 = Some ''ab'', phash = Some ''1''\<rparr>)]\<rparr>"

definition demo_disk :: filesystem where
  "demo_disk =
     [''/r'' \<mapsto> Dir, ''/r/V'' \<mapsto> Dir, ''/r/.trash'' \<mapsto> Dir,
      ''/r/a.jpg'' \<mapsto> File ''ab'', ''/r/b.jpg'' \<mapsto> File ''ab'']"

text \<open>After \<^verbatim>\<open>/r/a.jpg\<close> was moved into the folder \<^verbatim>\<open>V\<close>.\<close>

definition demo_disk_moved :: filesystem where
  "demo_disk_moved =
     [''/r'' \<mapsto> Dir, ''/r/V'' \<mapsto> Dir, ''/r/.trash'' \<mapsto> Dir,
      ''/r/V/a.jpg'' \<mapsto> File ''ab'', ''/r/b.jpg'' \<mapsto> File ''ab'']"

text \<open>
  The same, after a folder named \<^verbatim>\<open>a.jpg\<close> was created in the root and received a
  file named \<^verbatim>\<open>a.jpg\<close>.
\<close>

definition demo_disk_blocked :: filesystem where
  "demo_disk_blocked =
     [''/r'' \<mapsto> Dir, ''/r/V'' \<mapsto> Dir, ''/r/.trash'' \<mapsto> Dir,
      ''/r/V/a.jpg'' \<mapsto> File ''ab'', ''/r/a.jpg'' \<mapsto> Dir,
      ''/r/a.jpg/a.jpg'' \<mapsto> File ''zz'']"

text \<open>
  A sorter on the root \<^verbatim>\<open>/r\<close> with two scanned images, an empty hash database, the
  given cursor and sorted count, the given action history and the given disk.
\<close>

definition demo_sorter ::
  "int \<Rightarrow> int \<Rightarrow> history_action list option \<Rightarrow> filesystem \<Rightarrow> photo_sorter" where
  "demo_sorter i n h fs =
     \<lparr>root_dir = ''/r'', trash_dir = ''/r/.trash'',
      images = [''/r/a.jpg'', ''/r/b.jpg''],
      current_index = i, sorted_count = n, skipped_count = 0, deleted_count = 0,
      duplicate_count = 0,
      state = (demo_state h)\<lparr>last_index := Some i, st_sorted_count := Some n\<rparr>,
      auto_move_duplicates = True, duplicate_threshold = 5,
      hash_db = \<lparr>db_root_dir = ''/r'', hashes = []\<rparr>,
      disk = fs\<rparr>"

text \<open>The user presses the given key at the menu; the viewer works.\<close>

definition demo_input :: "char \<Rightarrow> user_input" where
  "demo_input k =
     \<lparr>viewer_fails = False, listing = [''.trash'', ''V'', ''a.jpg'', ''b.jpg''],
      keypress = k, folder_name_line = [], confirm_key = CHR ''n'', ack_key = CHR '' ''\<rparr>"

section \<open>The hash index\<close>

lemma dict_set_twice: "dict_set k v (dict_set k v xs) = dict_set k v xs"
  by (induction xs) auto

lemma map_of_dict_set: "map_of (dict_set k v xs) = (map_of xs)(k \<mapsto> v)"
  by (induction xs) (auto simp: fun_upd_twist)

lemma rel_path_of_add_hash:
  "rel_path_of lib (add_hash lib db f sha ph) g = rel_path_of lib db g"
  by (simp add: rel_path_of_def add_hash_def)

lemma add_hash_twice:
  "add_hash lib (add_hash lib db f sha ph) f sha ph = add_hash lib db f sha ph"
  by (simp add: add_hash_def rel_path_of_def dict_set_twice)

text \<open>
  C9. Adding the same \<open>(path, content hash, perceptual hash)\<close> a second time changes
  nothing: the database is the same, and so are \<open>get_by_sha256\<close> on every content
  hash and \<open>find_similar_by_phash\<close> on every perceptual hash and threshold. An add
  stores the record under the key of the path (the path relative to the root) and
  leaves every other key as it was.
\<close>

theorem add_hash_idempotent:
  "add_hash lib (add_hash lib db f sha ph) f sha ph = add_hash lib db f sha ph
   \<and> get_by_sha256 (add_hash lib (add_hash lib db f sha ph) f sha ph) q
       = get_by_sha256 (add_hash lib db f sha ph) q
   \<and> find_similar_by_phash lib (add_hash lib (add_hash lib db f sha ph) f sha ph) qh t
       = find_similar_by_phash lib (add_hash lib db f sha ph) qh t
   \<and> map_of (hashes (add_hash lib db f sha ph))
       = (map_of (hashes db))(rel_path_of lib db f \<mapsto> \<lparr>sha256 = Some sha, phash = ph\<rparr>)"
  by (simp add: add_hash_twice) (simp add: add_hash_def map_of_dict_set)

theorem add_hash_idempotent_witness:
  "add_hash demo_library
     (add_hash demo_library \<lparr>db_root_dir = ''/r'', hashes = []\<rparr> ''/r/a.jpg'' ''ab'' (Some ''f''))
     ''/r/a.jpg'' ''ab'' (Some ''f'')
   = \<lparr>db_root_dir = ''/r'', hashes = [(''a.jpg'', \<lparr>sha256 = Some ''ab'', phash = Some ''f''\<rparr>)]\<rparr>"
proof -
  have "add_hash demo_library \<lparr>db_root_dir = ''/r'', hashes = []\<rparr> ''/r/a.jpg'' ''ab'' (Some ''f'')
        = \<lparr>db_root_dir = ''/r'', hashes = [(''a.jpg'', \<lparr>sha256 = Some ''ab'', phash = Some ''f''\<rparr>)]\<rparr>"
    by (simp add: add_hash_def rel_path_of_def demo_library_def)
  then show ?thesis
    using add_hash_idempotent [of demo_library "\<lparr>db_root_dir = ''/r'', hashes = []\<rparr>"
        "''/r/a.jpg''" "''ab''" "Some ''f''"]
    by simp
qed

section \<open>The session state store\<close>

text \<open>
  C5, as the code has it: \<open>add_action_to_history\<close> appends the action unless an equal
  action is anywhere in the history, the most recent entry or an older one; nothing
  else of the state changes.
\<close>

theorem add_action_unless_present:
  "add_action_to_history st a =
     st\<lparr>action_history :=
          Some (case action_history st of
                  None \<Rightarrow> [a]
                | Some h \<Rightarrow> if a \<in> set h then h else h @ [a])\<rparr>"
  by (cases "action_history st") (auto simp: add_action_to_history_def)

theorem add_action_unless_present_witness:
  "add_action_to_history (demo_state (Some [demo_moved])) demo_deleted
     = demo_state (Some [demo_moved, demo_deleted])"
  using add_action_unless_present [of "demo_state (Some [demo_moved])" demo_deleted]
  by (simp add: demo_state_def demo_moved_def demo_deleted_def)

text \<open>
  C5 as claimed fails: an action equal to an older entry, not the most recent one, is
  not appended.
\<close>

theorem add_action_older_entry_counterexample:
  "last [demo_moved, demo_deleted] \<noteq> demo_moved
   \<and> action_history (add_action_to_history (demo_state (Some [demo_moved, demo_deleted])) demo_moved)
       \<noteq> Some ([demo_moved, demo_deleted] @ [demo_moved])
   \<and> add_action_to_history (demo_state (Some [demo_moved, demo_deleted])) demo_moved
       = demo_state (Some [demo_moved, demo_deleted])"
  by (simp add: add_action_to_history_def demo_state_def demo_moved_def demo_deleted_def)

text \<open>
  C6. A missing state file gives the defaults with an empty action history. A state
  file that is not JSON (or cannot be opened) gives a dictionary with the counters, the
  index and the skipped files, and without the key \<^verbatim>\<open>action_history\<close>: the two
  dictionaries differ. A state file holding a JSON number, truth value or null, or a
  JSON list or string that lacks one of the key names, makes \<open>load_state\<close> raise.
\<close>

theorem load_state_malformed_lacks_history:
  "load_state NotJson =
     Inr (Loaded
       \<lparr>last_index = Some 0, st_sorted_count = Some 0, st_skipped_count = Some 0,
        st_deleted_count = Some 0, st_duplicate_count = Some 0,
        skipped_files = Some [], action_history = None\<rparr>)
   \<and> load_state NoFile =
     Inr (Loaded
       \<lparr>last_index = Some 0, st_sorted_count = Some 0, st_skipped_count = Some 0,
        st_deleted_count = Some 0, st_duplicate_count = Some 0,
        skipped_files = Some [], action_history = Some []\<rparr>)
   \<and> load_state NotJson \<noteq> load_state NoFile
   \<and> load_state JsonScalar = Inl TypeError
   \<and> load_state (JsonSequence False) = Inl TypeError"
  by (simp add: load_state_def)

section \<open>The nearest perceptual hash\<close>

lemma upd_pair: "upd (a, b) x = (if snd x < b then (Some (fst x), snd x) else (a, b))"
  by (simp add: upd_def)

lemma phash_loop_foldl:
  assumes "\<And>p e s h. (p, e) \<in> set hs \<Longrightarrow> phash e = Some s \<Longrightarrow> hex_to_hash lib s = Some h
             \<Longrightarrow> \<exists>d. hash_sub lib q h = Inr d"
  shows "phash_loop lib q hs best = Inr (foldl upd best (stored_distances lib q hs))"
  using assms
proof (induction hs arbitrary: best)
  case Nil
  then show ?case by simp
next
  case (Cons a hs)
  obtain p e where a: "a = (p, e)" by (cases a)
  have IH: "\<And>b. phash_loop lib q hs b = Inr (foldl upd b (stored_distances lib q hs))"
    using Cons.IH Cons.prems by (meson list.set_intros(2))
  show ?case
  proof (cases "phash e")
    case None
    then show ?thesis by (simp add: a IH)
  next
    case (Some s)
    show ?thesis
    proof (cases "hex_to_hash lib s")
      case None
      then show ?thesis by (simp add: a IH Some)
    next
      case (Some h)
      obtain d where "hash_sub lib q h = Inr d"
        using Cons.prems [of p e s h] \<open>phash e = Some s\<close> Some a by auto
      moreover have "upd best (p, d) = (if d < snd best then (Some p, d) else best)"
        by (simp add: upd_def)
      ultimately show ?thesis by (simp add: a IH Some \<open>phash e = Some s\<close>)
    qed
  qed
qed

lemma stored_distances_paths:
  "c \<in> set (stored_distances lib q hs) \<Longrightarrow> fst c \<in> fst ` set hs"
  by (induction hs) (auto split: option.splits sum.splits if_splits)

lemma foldl_upd_inv:
  "(foldl upd (bm, bd) ds = (bm, bd) \<and> (\<forall>c \<in> set ds. bd \<le> snd c)) \<or>
   (\<exists>i < length ds. foldl upd (bm, bd) ds = (Some (fst (ds ! i)), snd (ds ! i))
        \<and> snd (ds ! i) < bd
        \<and> (\<forall>j < length ds. snd (ds ! i) \<le> snd (ds ! j))
        \<and> (\<forall>j < i. snd (ds ! i) < snd (ds ! j)))"
proof (induction ds rule: rev_induct)
  case Nil
  then show ?case by simp
next
  case (snoc x xs)
  from snoc show ?case
  proof (elim disjE exE conjE)
    assume r: "foldl upd (bm, bd) xs = (bm, bd)" and all: "\<forall>c\<in>set xs. bd \<le> snd c"
    show ?thesis
    proof (cases "snd x < bd")
      case True
      have "\<forall>j < length xs. snd x < snd (xs ! j)"
        using all True by (meson nth_mem order_less_le_trans)
      then have "length xs < length (xs @ [x]) \<and>
          foldl upd (bm, bd) (xs @ [x]) = (Some (fst ((xs @ [x]) ! length xs)), snd ((xs @ [x]) ! length xs))
          \<and> snd ((xs @ [x]) ! length xs) < bd
          \<and> (\<forall>j < length (xs @ [x]). snd ((xs @ [x]) ! length xs) \<le> snd ((xs @ [x]) ! j))
          \<and> (\<forall>j < length xs. snd ((xs @ [x]) ! length xs) < snd ((xs @ [x]) ! j))"
        using True r by (auto simp: upd_pair nth_append less_Suc_eq order_less_imp_le)
      then show ?thesis by blast
    next
      case False
      then show ?thesis using r all by (auto simp: upd_pair)
    qed
  next
    fix i
    assume i: "i < length xs"
      and r: "foldl upd (bm, bd) xs = (Some (fst (xs ! i)), snd (xs ! i))"
      and lt: "snd (xs ! i) < bd"
      and mn: "\<forall>j<length xs. snd (xs ! i) \<le> snd (xs ! j)"
      and fst: "\<forall>j<i. snd (xs ! i) < snd (xs ! j)"
    show ?thesis
    proof (cases "snd x < snd (xs ! i)")
      case True
      have "\<forall>j < length xs. snd x < snd (xs ! j)"
        using mn True by (meson order_less_le_trans)
      then have "length xs < length (xs @ [x]) \<and>
          foldl upd (bm, bd) (xs @ [x]) = (Some (fst ((xs @ [x]) ! length xs)), snd ((xs @ [x]) ! length xs))
          \<and> snd ((xs @ [x]) ! length xs) < bd
          \<and> (\<forall>j < length (xs @ [x]). snd ((xs @ [x]) ! length xs) \<le> snd ((xs @ [x]) ! j))
          \<and> (\<forall>j < length xs. snd ((xs @ [x]) ! length xs) < snd ((xs @ [x]) ! j))"
        using True r lt by (auto simp: upd_pair nth_append less_Suc_eq order_less_imp_le)
      then show ?thesis by blast
    next
      case False
      have "i < length (xs @ [x]) \<and>
          foldl upd (bm, bd) (xs @ [x]) = (Some (fst ((xs @ [x]) ! i)), snd ((xs @ [x]) ! i))
          \<and> snd ((xs @ [x]) ! i) < bd
          \<and> (\<forall>j < length (xs @ [x]). snd ((xs @ [x]) ! i) \<le> snd ((xs @ [x]) ! j))
          \<and> (\<forall>j < i. snd ((xs @ [x]) ! i) < snd ((xs @ [x]) ! j))"
        using False r lt i mn fst by (auto simp: upd_pair nth_append less_Suc_eq)
      then show ?thesis by blast
    qed
  qed
qed

text \<open>
  C4, as the code has it. When perceptual hashing is available, the query parses, every
  stored perceptual hash that parses can be compared with it, and no record is stored
  under the empty path, \<open>find_similar_by_phash\<close> returns a result \<open>r\<close> such that:
  \<^item> \<open>r\<close> is none exactly when every distance to a stored perceptual hash exceeds the
    threshold (so also when no record has one);
  \<^item> a match \<open>(p, d)\<close> has \<open>d \<le> t\<close>, the threshold itself included; \<open>d\<close> is the
    least of all the distances and \<open>p\<close> is the first record in storage order at that
    distance.
\<close>

theorem find_similar_nearest_within_threshold:
  assumes avail: "perceptual_hash_available lib"
    and parse: "hex_to_hash lib qh = Some q"
    and cmp: "\<forall>(p, e) \<in> set (hashes db). \<forall>s h. phash e = Some s \<and> hex_to_hash lib s = Some h
                \<longrightarrow> (\<exists>d. hash_sub lib q h = Inr d)"
    and paths: "\<forall>(p, e) \<in> set (hashes db). p \<noteq> []"
  shows "\<exists>r. find_similar_by_phash lib db qh t = Inr r
           \<and> (r = None \<longleftrightarrow> (\<forall>c \<in> set (stored_distances lib q (hashes db)). t < snd c))
           \<and> (\<forall>p d. r = Some (p, d) \<longrightarrow>
                 d \<le> t
                 \<and> (\<exists>i < length (stored_distances lib q (hashes db)).
                       stored_distances lib q (hashes db) ! i = (p, d)
                       \<and> (\<forall>j < length (stored_distances lib q (hashes db)).
                             d \<le> snd (stored_distances lib q (hashes db) ! j))
                       \<and> (\<forall>j < i. d < snd (stored_distances lib q (hashes db) ! j))))"
proof -
  define ds where "ds = stored_distances lib q (hashes db)"
  have loop: "phash_loop lib q (hashes db) (None, t + 1) = Inr (foldl upd (None, t + 1) ds)"
    unfolding ds_def using cmp by (intro phash_loop_foldl) blast
  have nonempty: "\<And>c. c \<in> set ds \<Longrightarrow> fst c \<noteq> []"
    using paths stored_distances_paths [of _ lib q "hashes db"] unfolding ds_def by fastforce
  from foldl_upd_inv [of None "t + 1" ds]
  show ?thesis
  proof (elim disjE exE conjE)
    assume r: "foldl upd (None, t + 1) ds = (None, t + 1)" and all: "\<forall>c\<in>set ds. t + 1 \<le> snd c"
    have "find_similar_by_phash lib db qh t = Inr None"
      by (simp add: find_similar_by_phash_def avail parse loop r)
    moreover have "\<forall>c \<in> set ds. t < snd c" using all by fastforce
    ultimately show ?thesis unfolding ds_def by simp
  next
    fix i
    assume i: "i < length ds"
      and r: "foldl upd (None, t + 1) ds = (Some (fst (ds ! i)), snd (ds ! i))"
      and lt: "snd (ds ! i) < t + 1"
      and mn: "\<forall>j<length ds. snd (ds ! i) \<le> snd (ds ! j)"
      and fst: "\<forall>j<i. snd (ds ! i) < snd (ds ! j)"
    have ne: "fst (ds ! i) \<noteq> []" using nonempty i by simp
    have res: "find_similar_by_phash lib db qh t = Inr (Some (fst (ds ! i), snd (ds ! i)))"
      using lt ne by (simp add: find_similar_by_phash_def avail parse loop r)
    have notall: "\<not> (\<forall>c \<in> set ds. t < snd c)"
      using i lt by (metis add.commute less_iff_succ_less_eq linorder_not_le nth_mem)
    have "snd (ds ! i) \<le> t" using lt by simp
    then show ?thesis
      using res notall i mn fst unfolding ds_def [symmetric]
      by (intro exI [of _ "Some (fst (ds ! i), snd (ds ! i))"]) auto
  qed
qed

theorem find_similar_nearest_within_threshold_witness:
  "perceptual_hash_available demo_library
   \<and> hex_to_hash demo_library ''0'' = Some [False, False, False, False]
   \<and> stored_distances demo_library [False, False, False, False] (hashes demo_db) = [(''a.jpg'', 1)]
   \<and> (\<exists>r. find_similar_by_phash demo_library demo_db ''0'' 5 = Inr r \<and> r \<noteq> None)"
proof -
  have a: "perceptual_hash_available demo_library" by (simp add: demo_library_def)
  have b: "hex_to_hash demo_library ''0'' = Some [False, False, False, False]"
    by (simp add: demo_library_def hex_digit_bits_def bit_iff_odd)
  have h1: "hex_bits ''1'' = Some [False, False, False, True]"
    by (simp add: hex_digit_bits_def bit_iff_odd)
  have c: "\<forall>(p, e) \<in> set (hashes demo_db). \<forall>s h. phash e = Some s \<and> hex_to_hash demo_library s = Some h
                \<longrightarrow> (\<exists>d. hash_sub demo_library [False, False, False, False] h = Inr d)"
    using h1 by (auto simp: demo_db_def demo_library_def hamming_def)
  have d: "\<forall>(p, e) \<in> set (hashes demo_db). p \<noteq> []" by (simp add: demo_db_def)
  have e: "stored_distances demo_library [False, False, False, False] (hashes demo_db) = [(''a.jpg'', 1)]"
    using h1 by (simp add: demo_db_def demo_library_def hamming_def)
  from find_similar_nearest_within_threshold [OF a b c d, of 5] e
  show ?thesis using a b by auto
qed

text \<open>
  C4 as claimed fails: a match is returned whose distance equals the threshold, which is
  not strictly within it. (On the one-digit codes \<^verbatim>\<open>'0'\<close> and \<^verbatim>\<open>'1'\<close> the example
  library computes what \<^verbatim>\<open>imagehash\<close> does: two 2-by-2 hashes at distance 1.)
\<close>

theorem find_similar_at_threshold_counterexample:
  "find_similar_by_phash demo_library demo_db ''0'' 1 = Inr (Some (''a.jpg'', 1))
   \<and> \<not> ((1::int) < 1)"
proof -
  have h1: "hex_bits ''1'' = Some [False, False, False, True]"
    by (simp add: hex_digit_bits_def bit_iff_odd)
  have h0: "hex_bits ''0'' = Some [False, False, False, False]"
    by (simp add: hex_digit_bits_def bit_iff_odd)
  show ?thesis
    using h0 h1 by (simp add: find_similar_by_phash_def demo_db_def demo_library_def hamming_def)
qed

section \<open>The duplicate classifier\<close>

lemma get_by_sha256_in_first:
  "(p, e) \<in> set hs \<Longrightarrow> sha256 e = Some sha
     \<Longrightarrow> \<exists>orig. get_by_sha256_in hs sha = Some orig \<and> orig \<in> fst ` set hs"
  by (induction hs) (auto simp: rev_image_eqI)

text \<open>
  On an index with no record under the empty path the classifier reports an exact
  duplicate of the first record whose content hash equals the file's, whatever the
  perceptual hashing functions and the availability flag are: the result does not depend
  on them, so none of them is consulted. When hashing the file's content fails,
  \<open>is_duplicate\<close> returns \<^verbatim>\<open>(False, None, None)\<close> and does not raise.
\<close>

lemma is_duplicate_exact_or_unreadable:
  "(compute_file_hash lib fs f = Inr sha \<and> (p, e) \<in> set (hashes db) \<and> sha256 e = Some sha
      \<and> [] \<notin> fst ` set (hashes db)
      \<longrightarrow> (\<exists>orig. get_by_sha256 db sha = Some orig
             \<and> (\<forall>av ip hh hs.
                   is_duplicate
                     (lib\<lparr>perceptual_hash_available := av, image_phash := ip,
                          hex_to_hash := hh, hash_sub := hs\<rparr>) fs f db t
                   = Inr (True, Some ''exact'', Some orig))))
   \<and> (compute_file_hash lib fs f = Inl err \<longrightarrow> is_duplicate lib fs f db t = Inr (False, None, None))"
proof (intro conjI impI)
  assume h: "compute_file_hash lib fs f = Inr sha \<and> (p, e) \<in> set (hashes db) \<and> sha256 e = Some sha
      \<and> [] \<notin> fst ` set (hashes db)"
  then obtain orig where o: "get_by_sha256_in (hashes db) sha = Some orig" "orig \<in> fst ` set (hashes db)"
    using get_by_sha256_in_first by blast
  have ne: "orig \<noteq> []" using h o(2) by blast
  have "\<And>av ip hh hs. compute_file_hash
          (lib\<lparr>perceptual_hash_available := av, image_phash := ip, hex_to_hash := hh, hash_sub := hs\<rparr>) fs f
        = Inr sha"
    using h by (auto simp: compute_file_hash_def split: option.splits node.splits)
  then show "\<exists>orig. get_by_sha256 db sha = Some orig
             \<and> (\<forall>av ip hh hs.
                   is_duplicate
                     (lib\<lparr>perceptual_hash_available := av, image_phash := ip,
                          hex_to_hash := hh, hash_sub := hs\<rparr>) fs f db t
                   = Inr (True, Some ''exact'', Some orig))"
    using o ne by (simp add: is_duplicate_def get_by_sha256_def truthy_def)
next
  assume "compute_file_hash lib fs f = Inl err"
  then show "is_duplicate lib fs f db t = Inr (False, None, None)"
    by (simp add: is_duplicate_def)
qed

text \<open>
  C8. The index holds a record whose content hash equals the file's, stored under the
  empty path. \<open>get_by_sha256\<close> finds it and returns the empty string, the test
  \<^verbatim>\<open>if original:\<close> takes the empty string for "not found", and \<open>is_duplicate\<close>
  answers \<^verbatim>\<open>(False, None, None)\<close> where the claim, and the docstrings of both functions,
  say an exact duplicate is reported. This holds for every library.
\<close>

theorem is_duplicate_misses_record_under_empty_path:
  "\<forall>lib. compute_file_hash lib demo_disk ''/r/b.jpg'' = Inr (sha256_hexdigest lib ''ab'')
     \<and> get_by_sha256
           \<lparr>db_root_dir = ''/r'',
            hashes = [([], \<lparr>sha256 = Some (sha256_hexdigest lib ''ab''), phash = None\<rparr>)]\<rparr>
           (sha256_hexdigest lib ''ab'') = Some []
     \<and> is_duplicate lib demo_disk ''/r/b.jpg''
           \<lparr>db_root_dir = ''/r'',
            hashes = [([], \<lparr>sha256 = Some (sha256_hexdigest lib ''ab''), phash = None\<rparr>)]\<rparr> 5
         = Inr (False, None, None)"
proof
  fix lib
  have h: "compute_file_hash lib demo_disk ''/r/b.jpg'' = Inr (sha256_hexdigest lib ''ab'')"
    by (simp add: compute_file_hash_def demo_disk_def)
  have g: "get_by_sha256
             \<lparr>db_root_dir = ''/r'',
              hashes = [([], \<lparr>sha256 = Some (sha256_hexdigest lib ''ab''), phash = None\<rparr>)]\<rparr>
             (sha256_hexdigest lib ''ab'') = Some []"
    by (simp add: get_by_sha256_def)
  have f: "\<And>ph. find_similar_by_phash lib
             \<lparr>db_root_dir = ''/r'',
              hashes = [([], \<lparr>sha256 = Some (sha256_hexdigest lib ''ab''), phash = None\<rparr>)]\<rparr>
             ph 5 = Inr None"
    by (simp add: find_similar_by_phash_def split: option.splits)
  have d: "is_duplicate lib demo_disk ''/r/b.jpg''
           \<lparr>db_root_dir = ''/r'',
            hashes = [([], \<lparr>sha256 = Some (sha256_hexdigest lib ''ab''), phash = None\<rparr>)]\<rparr> 5
         = Inr (False, None, None)"
    using h by (simp add: is_duplicate_def g f truthy_def split: option.splits)
  show "compute_file_hash lib demo_disk ''/r/b.jpg'' = Inr (sha256_hexdigest lib ''ab'')
     \<and> get_by_sha256
           \<lparr>db_root_dir = ''/r'',
            hashes = [([], \<lparr>sha256 = Some (sha256_hexdigest lib ''ab''), phash = None\<rparr>)]\<rparr>
           (sha256_hexdigest lib ''ab'') = Some []
     \<and> is_duplicate lib demo_disk ''/r/b.jpg''
           \<lparr>db_root_dir = ''/r'',
            hashes = [([], \<lparr>sha256 = Some (sha256_hexdigest lib ''ab''), phash = None\<rparr>)]\<rparr> 5
         = Inr (False, None, None)"
    using h g d by blast
qed

section \<open>Undo\<close>

text \<open>
  C7. With no action history (the key absent or the list empty) undo returns the sorter
  as it was, and reports that there is nothing to undo. When the file of the most
  recent action is not at its recorded destination, undo returns the sorter as it was
  (history, counters, cursor and disk) and reports that it cannot undo.
\<close>

theorem undo_failure_leaves_state:
  "(action_history (state s) = None \<or> action_history (state s) = Some []
      \<longrightarrow> undo_last_action s = (s, NoActionsToUndo))
   \<and> (action_history (state s) = Some h \<and> h \<noteq> [] \<and> \<not> path_exists (disk s) (new_path (last h))
      \<longrightarrow> undo_last_action s =
            (s, case action (last h) of
                  Moved \<Rightarrow> CannotUndoFileNotFound (new_path (last h))
                | Deleted \<Rightarrow> CannotUndoNotInTrash))"
  by (auto simp: undo_last_action_def get_last_action_def split: action_kind.splits)

theorem undo_failure_leaves_state_witness:
  "undo_last_action (demo_sorter 0 0 (Some []) demo_disk)
     = (demo_sorter 0 0 (Some []) demo_disk, NoActionsToUndo)
   \<and> \<not> path_exists demo_disk (new_path demo_moved)
   \<and> undo_last_action (demo_sorter 1 1 (Some [demo_moved]) demo_disk)
     = (demo_sorter 1 1 (Some [demo_moved]) demo_disk, CannotUndoFileNotFound ''/r/V/a.jpg'')"
proof -
  have a: "action_history (state (demo_sorter 0 0 (Some []) demo_disk)) = Some []"
    by (simp add: demo_sorter_def demo_state_def)
  have b: "action_history (state (demo_sorter 1 1 (Some [demo_moved]) demo_disk)) = Some [demo_moved]"
    by (simp add: demo_sorter_def demo_state_def)
  have c: "\<not> path_exists demo_disk (new_path demo_moved)"
    by (simp add: path_exists_def demo_disk_def demo_moved_def)
  have d: "disk (demo_sorter 1 1 (Some [demo_moved]) demo_disk) = demo_disk"
    by (simp add: demo_sorter_def)
  from undo_failure_leaves_state [of "demo_sorter 0 0 (Some []) demo_disk" "[]"] a
  have e: "undo_last_action (demo_sorter 0 0 (Some []) demo_disk)
     = (demo_sorter 0 0 (Some []) demo_disk, NoActionsToUndo)" by simp
  from undo_failure_leaves_state [of "demo_sorter 1 1 (Some [demo_moved]) demo_disk" "[demo_moved]"] b c d
  have "undo_last_action (demo_sorter 1 1 (Some [demo_moved]) demo_disk)
     = (demo_sorter 1 1 (Some [demo_moved]) demo_disk, CannotUndoFileNotFound ''/r/V/a.jpg'')"
    by (simp add: demo_moved_def)
  then show ?thesis using e c by simp
qed

lemma shutil_move_plain:
  "fs src = Some (File bytes) \<Longrightarrow> \<not> isdir fs dst \<Longrightarrow> parent_error fs dst = None
     \<Longrightarrow> shutil_move fs src dst = Inr ((fs(src := None))(dst \<mapsto> File bytes))"
  by (simp add: shutil_move_def)

text \<open>
  When the folder of the source path is missing or is a file, the move back raises and
  undo changes nothing.
\<close>

lemma undo_without_source_folder:
  assumes "action_history (state s) = Some h" "h \<noteq> []"
    "disk s (new_path (last h)) = Some n" "\<not> isdir (disk s) (old_path (last h))"
    "parent_error (disk s) (old_path (last h)) = Some e"
  shows "undo_last_action s = (s, ErrorUndoing e)"
proof -
  have ex: "path_exists (disk s) (new_path (last h))" using assms(3) by (simp add: path_exists_def)
  have mv: "shutil_move (disk s) (new_path (last h)) (old_path (last h)) = Inl e"
    using assms(3,4,5) by (simp add: shutil_move_def)
  show ?thesis
    using assms(1,2) ex mv
    by (cases "action (last h)") (simp_all add: undo_last_action_def get_last_action_def)
qed

text \<open>
  C3, as the code has it. With a most recent action whose destination is a file, and a
  source path that is written in normal form, is not a directory and lies in a folder
  that is there (the move back then succeeds), undo moves that file back to the source
  path, removes that last entry from the history, steps the cursor back by one, and
  takes one off \<open>sorted_count\<close> for a move or off \<open>deleted_count\<close> for a deletion; the
  other counters, the image list and the hash database stay as they were.
\<close>

theorem undo_restores_when_source_is_no_directory:
  assumes hist: "action_history (state s) = Some h" and ne: "h \<noteq> []"
    and isfile: "disk s (new_path (last h)) = Some (File bytes)"
    and plain: "normal_form (old_path (last h))"
    and nodir: "\<not> isdir (disk s) (old_path (last h))"
    and parent: "parent_error (disk s) (old_path (last h)) = None"
  shows "(case undo_last_action s of
            (s', r) \<Rightarrow>
              disk s' = ((disk s)(new_path (last h) := None))(old_path (last h) \<mapsto> File bytes)
              \<and> action_history (state s') = Some (butlast h)
              \<and> current_index s' = current_index s - 1
              \<and> sorted_count s' = sorted_count s - (if action (last h) = Moved then 1 else 0)
              \<and> deleted_count s' = deleted_count s - (if action (last h) = Deleted then 1 else 0)
              \<and> skipped_count s' = skipped_count s
              \<and> duplicate_count s' = duplicate_count s
              \<and> images s' = images s \<and> hash_db s' = hash_db s
              \<and> r = (case action (last h) of
                       Moved \<Rightarrow> RestoredToOriginal (basename (old_path (last h)))
                     | Deleted \<Rightarrow> RestoredFromTrash (basename (old_path (last h)))))"
proof -
  have ex: "path_exists (disk s) (new_path (last h))" using isfile by (simp add: path_exists_def)
  have mv: "shutil_move (disk s) (new_path (last h)) (old_path (last h))
      = Inr (((disk s)(new_path (last h) := None))(old_path (last h) \<mapsto> File bytes))"
    using isfile nodir parent by (rule shutil_move_plain)
  show ?thesis
    using hist ne ex mv
    by (cases "action (last h)")
       (simp_all add: undo_last_action_def get_last_action_def pop_last_action_def save_state_def)
qed

theorem undo_restores_when_source_is_no_directory_witness:
  "(case undo_last_action (demo_sorter 1 1 (Some [demo_moved]) demo_disk_moved) of
      (s', r) \<Rightarrow> disk s' ''/r/a.jpg'' = Some (File ''ab'') \<and> disk s' ''/r/V/a.jpg'' = None
        \<and> action_history (state s') = Some [] \<and> current_index s' = 0 \<and> sorted_count s' = 0
        \<and> deleted_count s' = 0 \<and> r = RestoredToOriginal ''a.jpg'')"
proof -
  let ?s = "demo_sorter 1 1 (Some [demo_moved]) demo_disk_moved"
  have a: "action_history (state ?s) = Some [demo_moved]"
    by (simp add: demo_sorter_def demo_state_def)
  have b: "[demo_moved] \<noteq> []" by simp
  have c: "disk ?s (new_path (last [demo_moved])) = Some (File ''ab'')"
    by (simp add: demo_sorter_def demo_disk_moved_def demo_moved_def)
  have d: "\<not> isdir (disk ?s) (old_path (last [demo_moved]))"
    by (simp add: demo_sorter_def demo_disk_moved_def demo_moved_def isdir_def)
  have nf: "normal_form (old_path (last [demo_moved]))"
    by (simp add: demo_moved_def normal_form_def)
  have par: "parent_error (disk ?s) (old_path (last [demo_moved])) = None"
    by (simp add: demo_sorter_def demo_disk_moved_def demo_moved_def parent_error_def
          dirname_def dirpart_def only_slashes_def)
  have e: "current_index ?s = 1" "sorted_count ?s = 1" "deleted_count ?s = 0"
    by (simp_all add: demo_sorter_def)
  from undo_restores_when_source_is_no_directory [OF a b c nf d par] e
  show ?thesis
    by (auto simp: demo_moved_def basename_def split: prod.splits)
qed

text \<open>
  C3 as claimed fails: the destination file exists, the source path is now a directory
  that holds an entry of the same name, \<^verbatim>\<open>shutil.move\<close> raises, and undo changes
  nothing.
\<close>

theorem undo_blocked_source_counterexample:
  "action_history (state (demo_sorter 1 1 (Some [demo_moved]) demo_disk_blocked)) = Some [demo_moved]
   \<and> disk (demo_sorter 1 1 (Some [demo_moved]) demo_disk_blocked) (new_path demo_moved) = Some (File ''ab'')
   \<and> undo_last_action (demo_sorter 1 1 (Some [demo_moved]) demo_disk_blocked)
       = (demo_sorter 1 1 (Some [demo_moved]) demo_disk_blocked, ErrorUndoing ShutilError)
   \<and> sorted_count (fst (undo_last_action (demo_sorter 1 1 (Some [demo_moved]) demo_disk_blocked)))
       \<noteq> sorted_count (demo_sorter 1 1 (Some [demo_moved]) demo_disk_blocked) - 1"
proof -
  let ?s = "demo_sorter 1 1 (Some [demo_moved]) demo_disk_blocked"
  have a: "action_history (state ?s) = Some [demo_moved]"
    by (simp add: demo_sorter_def demo_state_def)
  have b: "disk ?s = demo_disk_blocked" by (simp add: demo_sorter_def)
  have c: "demo_disk_blocked (new_path demo_moved) = Some (File ''ab'')"
    by (simp add: demo_disk_blocked_def demo_moved_def)
  have d: "shutil_move demo_disk_blocked (new_path demo_moved) (old_path demo_moved) = Inl ShutilError"
    by (simp add: shutil_move_def demo_disk_blocked_def demo_moved_def isdir_def path_exists_def
          path_join_def shutil_basename_def basename_def)
  have u: "undo_last_action ?s = (?s, ErrorUndoing ShutilError)"
    using a b c d
    by (simp add: undo_last_action_def get_last_action_def path_exists_def demo_moved_def)
  have "sorted_count ?s = 1" by (simp add: demo_sorter_def)
  then show ?thesis using a b c u by simp
qed

section \<open>The sorting loop\<close>

lemma handle_duplicate_disk_only:
  "handle_duplicate s p = Some s1 \<Longrightarrow> \<exists>fs. s1 = s\<lparr>disk := fs\<rparr>"
  by (auto simp: handle_duplicate_def Let_def split: option.splits sum.splits prod.splits)

lemma move_to_trash_disk_only: "\<exists>fs. move_to_trash s p = s\<lparr>disk := fs\<rparr>"
proof (cases "shutil_move (disk s) p (trash_dir s)")
  case (Inl e)
  then have "move_to_trash s p = s\<lparr>disk := disk s\<rparr>" by (simp add: move_to_trash_def)
  then show ?thesis by blast
next
  case (Inr fs)
  then show ?thesis by (auto simp: move_to_trash_def)
qed

lemma undo_keeps:
  "images (fst (undo_last_action s)) = images s"
  "duplicate_count (fst (undo_last_action s)) = duplicate_count s"
  "counted (fst (undo_last_action s)) - current_index (fst (undo_last_action s))
     = counted s - current_index s"
  "hash_db (fst (undo_last_action s)) = hash_db s"
  by (auto simp: undo_last_action_def save_state_def counted_def
           split: option.splits action_kind.splits sum.splits)

lemma handle_choice_shape:
  assumes "handle_choice inp s c p ef = Some (s1, r)"
  shows "(s1 = fst (undo_last_action s) \<and> r = Inr ResRetry) \<or> same_counters s s1"
proof -
  obtain fs where t: "move_to_trash s p = s\<lparr>disk := fs\<rparr>"
    using move_to_trash_disk_only by blast
  show ?thesis
    using assms
    by (auto simp: handle_choice_def Let_def same_counters_def t press_any_key_retry_def
             split: if_splits option.splits sum.splits prod.splits)
qed

lemma handle_choice_duplicate:
  assumes "handle_choice inp s c p ef = Some (s1, Inr ResDuplicate)"
  shows "s1 = s"
  using assms
  by (auto simp: handle_choice_def Let_def press_any_key_retry_def
           split: if_splits option.splits sum.splits prod.splits)

lemma handle_choice_balance:
  assumes "handle_choice inp s c p ef = Some (s1, r)"
  shows "images s1 = images s" "duplicate_count s1 = duplicate_count s"
    "counted s1 - current_index s1 = counted s - current_index s" "hash_db s1 = hash_db s"
  using handle_choice_shape [OF assms] undo_keeps [of s]
  by (auto simp: same_counters_def counted_def)

lemma present_photo_step:
  assumes "present_photo lib inp s p = Some (s', out)"
  shows "images s' = images s
         \<and> counted s' - current_index s' + (if stepped_over out then 1 else 0)
             = counted s - current_index s
         \<and> duplicate_count s \<le> duplicate_count s'
         \<and> (out = Acted ResDuplicate \<longrightarrow>
               action_history (state s') = action_history (state s)
               \<and> duplicate_count s' = duplicate_count s + 1)
         \<and> out \<noteq> AutoDuplicate"
proof (cases "open_image (disk s) (viewer_fails inp) p \<noteq> None")
  case True
  then show ?thesis using assms
    by (auto simp: present_photo_def counted_def stepped_over_def)
next
  case False
  show ?thesis
  proof (cases "get_keypress (keypress inp)")
    case (Inl e)
    then show ?thesis using assms False
      by (auto simp: present_photo_def stepped_over_def)
  next
    case (Inr choice)
    let ?ef = "list_event_folders (disk s) (listing inp) (root_dir s)"
    from assms False Inr obtain s1 r where
      hc: "handle_choice inp s choice p ?ef = Some (s1, r)"
      by (auto simp: present_photo_def Let_def split: option.splits)
    note b = handle_choice_balance [OF hc]
    show ?thesis
    proof (cases r)
      case (Inl e)
      then show ?thesis using assms False \<open>get_keypress (keypress inp) = Inr choice\<close> hc b
        by (auto simp: present_photo_def Let_def stepped_over_def)
    next
      case (Inr res)
      show ?thesis
      proof (cases res)
        case ResDuplicate
        then have eq: "s1 = s" using hc Inr handle_choice_duplicate by blast
        from assms False \<open>get_keypress (keypress inp) = Inr choice\<close> hc Inr ResDuplicate
        obtain s2 where hd: "handle_duplicate s1 p = Some s2"
          and s': "s' = save_state (s2\<lparr>duplicate_count := duplicate_count s2 + 1,
                                   current_index := current_index s2 + 1\<rparr>)"
          and out: "out = Acted ResDuplicate"
          by (auto simp: present_photo_def Let_def split: option.splits)
        from handle_duplicate_disk_only [OF hd] obtain fs where "s2 = s1\<lparr>disk := fs\<rparr>" by blast
        then show ?thesis using s' out eq
          by (simp add: save_state_def counted_def stepped_over_def)
      qed (use assms False \<open>get_keypress (keypress inp) = Inr choice\<close> hc Inr b in
            \<open>auto simp: present_photo_def Let_def stepped_over_def save_state_def counted_def\<close>)
    qed
  qed
qed

lemma loop_iteration_step:
  assumes "loop_iteration lib inp s = Some (s', out)"
  shows "images s' = images s
         \<and> counted s' - current_index s' + (if stepped_over out then 1 else 0)
             = counted s - current_index s
         \<and> duplicate_count s \<le> duplicate_count s'
         \<and> (out = AutoDuplicate \<or> out = Acted ResDuplicate \<longrightarrow>
               action_history (state s') = action_history (state s)
               \<and> duplicate_count s' = duplicate_count s + 1)"
proof (cases "py_index (images s) (current_index s)")
  case (Inl e)
  then show ?thesis using assms by (auto simp: loop_iteration_def stepped_over_def)
next
  case (Inr p)
  show ?thesis
  proof (cases "path_exists (disk s) p")
    case False
    then show ?thesis using assms Inr
      by (auto simp: loop_iteration_def stepped_over_def counted_def)
  next
    case True
    show ?thesis
    proof (cases "\<exists>ty orig. is_duplicate lib (disk s) p (hash_db s) (duplicate_threshold s)
                     = Inr (True, ty, orig) \<and> auto_move_duplicates s")
      case True
      then obtain s1 where hd: "handle_duplicate s p = Some s1"
        and s': "s' = save_state (s1\<lparr>duplicate_count := duplicate_count s1 + 1,
                                   current_index := current_index s1 + 1\<rparr>)"
        and out: "out = AutoDuplicate"
        using assms Inr \<open>path_exists (disk s) p\<close>
        by (auto simp: loop_iteration_def split: option.splits)
      from handle_duplicate_disk_only [OF hd] obtain fs where "s1 = s\<lparr>disk := fs\<rparr>" by blast
      then show ?thesis using s' out
        by (simp add: save_state_def counted_def stepped_over_def)
    next
      case False
      then have "present_photo lib inp s p = Some (s', out)"
        using assms Inr \<open>path_exists (disk s) p\<close>
        by (auto simp: loop_iteration_def split: sum.splits prod.splits if_splits)
      from present_photo_step [OF this] show ?thesis by auto
    qed
  qed
qed



text \<open>A photo that was moved is no longer at the path the loop hashes.\<close>

lemma free_dest_path_free:
  assumes "free_dest_path fs d b e p n = Some q"
  shows "\<not> path_exists fs q"
proof (rule free_dest_path.raw_induct
         [where P = "\<lambda>fs d b e p n q. \<not> path_exists fs q", OF _ assms])
  fix f :: "filesystem \<Rightarrow> path \<Rightarrow> string \<Rightarrow> string \<Rightarrow> path \<Rightarrow> nat \<Rightarrow> path option"
    and fs d b e p n q
  assume IH: "\<And>fs d b e p n y. f fs d b e p n = Some y \<Longrightarrow> \<not> path_exists fs y"
    and eq: "(if path_exists fs p
              then f fs d b e (path_join d (b @ ''_'' @ str_nat n @ e)) (n + 1)
              else Some p) = Some q"
  show "\<not> path_exists fs q"
  proof (cases "path_exists fs p")
    case True
    then show ?thesis using IH eq by simp
  next
    case False
    then show ?thesis using eq by simp
  qed
qed

lemma move_photo_source_gone:
  assumes "move_photo fs src d = Some (Inr (fs', q))"
  shows "fs' src = None"
proof -
  from assms have ex: "path_exists fs src"
    by (auto simp: move_photo_def split: if_splits)
  from assms obtain q' where f: "free_dest_path fs d (fst (splitext (basename src)))
        (snd (splitext (basename src))) (path_join d (basename src)) 1 = Some q'"
    and mv: "shutil_move fs src q' = Inr fs'" and q: "q' = q"
    by (auto simp: move_photo_def Let_def split: if_splits option.splits sum.splits)
  have nq: "\<not> path_exists fs q'" using f by (rule free_dest_path_free)
  then have "q' \<noteq> src" using ex by auto
  moreover have "\<not> isdir fs q'" using nq by (simp add: isdir_def path_exists_def)
  ultimately show ?thesis using mv ex
    by (auto simp: shutil_move_def path_exists_def split: option.splits if_splits)
qed

lemma handle_choice_moved:
  assumes "handle_choice inp s c p ef = Some (s1, Inr ResMoved)"
  shows "disk s1 p = None \<and> hash_db s1 = hash_db s"
  using assms
  by (auto simp: handle_choice_def Let_def press_any_key_retry_def
           dest: move_photo_source_gone
           split: if_splits option.splits sum.splits prod.splits)

lemma present_photo_moved:
  assumes "present_photo lib inp s p = Some (s', Acted ResMoved)"
  shows "hash_db s' = hash_db s"
proof -
  from assms obtain choice s1 where
    hc: "handle_choice inp s choice p (list_event_folders (disk s) (listing inp) (root_dir s))
           = Some (s1, Inr ResMoved)"
    and s': "s' = save_state (s1\<lparr>hash_db := add_to_hash_db lib (disk s1) p (hash_db s1),
                               sorted_count := sorted_count s1 + 1,
                               current_index := current_index s1 + 1\<rparr>)"
    by (auto simp: present_photo_def Let_def
             split: if_splits option.splits sum.splits prod.splits action_result.splits)
  from handle_choice_moved [OF hc] have "add_to_hash_db lib (disk s1) p (hash_db s1) = hash_db s"
    by (simp add: add_to_hash_db_def compute_file_hash_def)
  then show ?thesis using s' by (simp add: save_state_def)
qed

lemma loop_iteration_moved:
  assumes "loop_iteration lib inp s = Some (s', Acted ResMoved)"
  shows "hash_db s' = hash_db s"
proof -
  from assms obtain p where "present_photo lib inp s p = Some (s', Acted ResMoved)"
    by (auto simp: loop_iteration_def split: if_splits option.splits sum.splits prod.splits)
  then show ?thesis by (rule present_photo_moved)
qed

section \<open>Worked runs\<close>

lemma is_duplicate_empty_db:
  "hashes db = [] \<Longrightarrow> \<exists>r. is_duplicate lib fs p db t = Inr (False, r)"
  by (auto simp: is_duplicate_def get_by_sha256_def truthy_def find_similar_by_phash_def Let_def
           split: sum.splits option.splits)

lemma demo_event_folders:
  "list_event_folders demo_disk (listing (demo_input k)) ''/r'' = [''V'']"
  by (simp add: list_event_folders_def demo_disk_def demo_input_def path_exists_def isdir_def
        path_join_def)

lemma demo_move_photo:
  "move_photo demo_disk ''/r/a.jpg'' ''/r/V''
     = Some (Inr ((demo_disk(''/r/a.jpg'' := None))(''/r/V/a.jpg'' \<mapsto> File ''ab''), ''/r/V/a.jpg''))"
proof -
  have j: "path_join ''/r/V'' (basename ''/r/a.jpg'') = ''/r/V/a.jpg''"
    by (simp add: path_join_def basename_def)
  have ne: "\<not> path_exists demo_disk ''/r/V/a.jpg''"
    by (simp add: path_exists_def demo_disk_def)
  have f: "\<And>b e. free_dest_path demo_disk ''/r/V'' b e ''/r/V/a.jpg'' (Suc 0) = Some ''/r/V/a.jpg''"
    using ne by (subst free_dest_path.simps) simp
  have par: "parent_error demo_disk ''/r/V/a.jpg'' = None"
    by (simp add: parent_error_def dirname_def dirpart_def only_slashes_def demo_disk_def)
  have src: "demo_disk ''/r/a.jpg'' = Some (File ''ab'')" by (simp add: demo_disk_def)
  have nd: "\<not> isdir demo_disk ''/r/V/a.jpg''" using ne by (simp add: isdir_def path_exists_def)
  have mv: "shutil_move demo_disk ''/r/a.jpg'' ''/r/V/a.jpg''
      = Inr ((demo_disk(''/r/a.jpg'' := None))(''/r/V/a.jpg'' \<mapsto> File ''ab''))"
    using src nd par by (rule shutil_move_plain)
  have ex: "path_exists demo_disk ''/r/a.jpg''" "path_exists demo_disk ''/r/V''" "isdir demo_disk ''/r/V''"
    by (simp_all add: path_exists_def isdir_def demo_disk_def)
  show ?thesis
    by (simp add: move_photo_def Let_def ex j f mv)
qed

lemma demo_first_pass:
  "\<exists>s1. loop_iteration demo_library (demo_input (CHR ''1'')) (demo_sorter 0 0 (Some []) demo_disk)
           = Some (s1, Acted ResMoved)
        \<and> images s1 = [''/r/a.jpg'', ''/r/b.jpg''] \<and> current_index s1 = 1
        \<and> sorted_count s1 = 1 \<and> duplicate_count s1 = 0
        \<and> skipped_count s1 = 0 \<and> deleted_count s1 = 0
        \<and> disk s1 = (demo_disk(''/r/a.jpg'' := None))(''/r/V/a.jpg'' \<mapsto> File ''ab'')"
proof -
  let ?s = "demo_sorter 0 0 (Some []) demo_disk"
  have f: "images ?s = [''/r/a.jpg'', ''/r/b.jpg'']" "current_index ?s = 0" "disk ?s = demo_disk"
    "hashes (hash_db ?s) = []" "root_dir ?s = ''/r''" "sorted_count ?s = 0" "duplicate_count ?s = 0"
    "skipped_count ?s = 0" "deleted_count ?s = 0"
    by (simp_all add: demo_sorter_def)
  have ix: "py_index (images ?s) (current_index ?s) = Inr ''/r/a.jpg''"
    by (simp add: f py_index_def)
  have ex: "path_exists (disk ?s) ''/r/a.jpg''"
    unfolding f(3) by (simp add: path_exists_def demo_disk_def)
  obtain r where dup: "is_duplicate demo_library (disk ?s) ''/r/a.jpg'' (hash_db ?s) (duplicate_threshold ?s)
      = Inr (False, r)"
    using is_duplicate_empty_db [OF f(4)] by blast
  have op: "open_image (disk ?s) (viewer_fails (demo_input (CHR ''1''))) ''/r/a.jpg'' = None"
    using ex by (simp add: open_image_def demo_input_def)
  have key: "get_keypress (keypress (demo_input (CHR ''1''))) = Inr (CHR ''1'')"
    by code_simp
  have hc: "handle_choice (demo_input (CHR ''1'')) ?s (CHR ''1'') ''/r/a.jpg'' [''V'']
      = Some (?s\<lparr>disk := (demo_disk(''/r/a.jpg'' := None))(''/r/V/a.jpg'' \<mapsto> File ''ab''),
                 state := add_action_to_history (state ?s)
                    \<lparr>action = Moved, old_path = ''/r/a.jpg'', new_path = ''/r/V/a.jpg''\<rparr>\<rparr>,
              Inr ResMoved)"
    by (simp add: handle_choice_def isdigit_def int_of_digit_def f path_join_def demo_move_photo)
  have pp: "\<exists>s1. present_photo demo_library (demo_input (CHR ''1'')) ?s ''/r/a.jpg'' = Some (s1, Acted ResMoved)
        \<and> images s1 = [''/r/a.jpg'', ''/r/b.jpg''] \<and> current_index s1 = 1
        \<and> sorted_count s1 = 1 \<and> duplicate_count s1 = 0
        \<and> skipped_count s1 = 0 \<and> deleted_count s1 = 0
        \<and> disk s1 = (demo_disk(''/r/a.jpg'' := None))(''/r/V/a.jpg'' \<mapsto> File ''ab'')"
    using op key hc
    by (simp add: present_photo_def f demo_event_folders save_state_def add_to_hash_db_def
          compute_file_hash_def)
  show ?thesis
    using ix ex dup pp by (simp add: loop_iteration_def)
qed

lemma quit_pass:
  assumes "py_index (images s) (current_index s) = Inr p" "path_exists (disk s) p"
    "hashes (hash_db s) = []"
  shows "loop_iteration demo_library (demo_input (CHR ''q'')) s = Some (save_state s, Acted ResQuit)"
proof -
  obtain r where dup: "is_duplicate demo_library (disk s) p (hash_db s) (duplicate_threshold s)
      = Inr (False, r)"
    using is_duplicate_empty_db [OF assms(3)] by blast
  have op: "open_image (disk s) (viewer_fails (demo_input (CHR ''q''))) p = None"
    using assms(2) by (simp add: open_image_def demo_input_def)
  have key: "get_keypress (keypress (demo_input (CHR ''q''))) = Inr (CHR ''Q'')"
    by code_simp
  have hc: "\<And>ef. handle_choice (demo_input (CHR ''q'')) s (CHR ''Q'') p ef = Some (s, Inr ResQuit)"
    by (simp add: handle_choice_def isdigit_def)
  have "present_photo demo_library (demo_input (CHR ''q'')) s p = Some (save_state s, Acted ResQuit)"
    using op key hc by (simp add: present_photo_def)
  then show ?thesis using assms dup by (simp add: loop_iteration_def)
qed

text \<open>
  C1. The loop calls \<^verbatim>\<open>add_to_hash_db(photo_path, ...)\<close> after a move, with the path
  the photo had before the move. The photo is no longer there, hashing fails, and
  \<^verbatim>\<open>add_to_hash_db\<close> swallows the failure: every pass that ends in \<^verbatim>\<open>'moved'\<close> leaves
  the hash database as it was, without a record for the photo. In the run of the claim
  (two files with the same bytes, the first moved into a folder with key 1, then the
  second presented; the theorem after this one) the database is still empty, the second
  file is presented to the user and not moved to Duplicates, and \<open>duplicate_count\<close>
  is 0.
\<close>

theorem moved_photo_is_not_indexed:
  "loop_iteration lib inp s = Some (s', Acted ResMoved) \<Longrightarrow> hash_db s' = hash_db s"
  by (rule loop_iteration_moved)

theorem moved_photo_is_not_indexed_witness:
  "\<exists>s2. sorting_loop demo_library [demo_input (CHR ''1''), demo_input (CHR ''q'')]
           (demo_sorter 0 0 (Some []) demo_disk)
         = Some (s2, [Acted ResMoved, Acted ResQuit])
      \<and> disk s2 ''/r/V/a.jpg'' = Some (File ''ab'')
      \<and> disk s2 ''/r/b.jpg'' = Some (File ''ab'')
      \<and> sorted_count s2 = 1 \<and> duplicate_count s2 = 0
      \<and> hashes (hash_db s2) = []"
proof -
  let ?s = "demo_sorter 0 0 (Some []) demo_disk"
  obtain s1 where it1: "loop_iteration demo_library (demo_input (CHR ''1'')) ?s = Some (s1, Acted ResMoved)"
    and p: "images s1 = [''/r/a.jpg'', ''/r/b.jpg'']" "current_index s1 = 1"
       "sorted_count s1 = 1" "duplicate_count s1 = 0"
       "disk s1 = (demo_disk(''/r/a.jpg'' := None))(''/r/V/a.jpg'' \<mapsto> File ''ab'')"
    using demo_first_pass by blast
  have "hash_db s1 = hash_db ?s" using it1 by (rule moved_photo_is_not_indexed)
  then have h: "hashes (hash_db s1) = []" by (simp add: demo_sorter_def)
  have ix: "py_index (images s1) (current_index s1) = Inr ''/r/b.jpg''"
    by (simp add: p py_index_def)
  have ex: "path_exists (disk s1) ''/r/b.jpg''"
    by (simp add: p path_exists_def demo_disk_def)
  have it2: "loop_iteration demo_library (demo_input (CHR ''q'')) s1 = Some (save_state s1, Acted ResQuit)"
    using ix ex h by (rule quit_pass)
  have c0: "current_index ?s < int (length (images ?s))" by (simp add: demo_sorter_def)
  have run: "sorting_loop demo_library [demo_input (CHR ''1''), demo_input (CHR ''q'')] ?s
      = Some (save_state s1, [Acted ResMoved, Acted ResQuit])"
    using c0 it1 it2 p by (simp add: ends_loop_def)
  show ?thesis
    using run p h by (intro exI [of _ "save_state s1"]) (simp add: save_state_def demo_disk_def)
qed







section \<open>Duplicates and the action history\<close>

lemma sorting_loop_duplicate_mono:
  "sorting_loop lib inps s = Some (s', outs) \<Longrightarrow> duplicate_count s \<le> duplicate_count s'"
proof (induction inps arbitrary: s s' outs)
  case Nil
  then show ?case by simp
next
  case (Cons inp inps)
  show ?case
  proof (cases "current_index s < int (length (images s))")
    case False
    then show ?thesis using Cons.prems by simp
  next
    case True
    then obtain s1 out where it: "loop_iteration lib inp s = Some (s1, out)"
      using Cons.prems by (auto split: option.splits)
    from loop_iteration_step [OF it] have st: "duplicate_count s \<le> duplicate_count s1" by simp
    show ?thesis
    proof (cases "ends_loop out")
      case True
      then have "s' = s1" using Cons.prems it \<open>current_index s < _\<close> by auto
      then show ?thesis using st by simp
    next
      case False
      then obtain outs1 where rest: "sorting_loop lib inps s1 = Some (s', outs1)"
        using Cons.prems it \<open>current_index s < _\<close> by (auto split: option.splits)
      from Cons.IH [OF rest] st show ?thesis by simp
    qed
  qed
qed

text \<open>
  C10. \<^verbatim>\<open>_handle_duplicate\<close> changes nothing but the disk: the state dictionary, and so
  the action history, and all counters stay. A pass of the loop that moves a duplicate,
  automatically or by the duplicate key, leaves the action history as it was and adds
  one to \<open>duplicate_count\<close>. Undo never changes \<open>duplicate_count\<close>, and neither a pass
  nor a run ever lowers it.
\<close>

theorem duplicate_moves_stay_out_of_history:
  "(handle_duplicate s p = Some s1 \<longrightarrow> state s1 = state s \<and> same_counters s s1)
   \<and> (loop_iteration lib inp s = Some (s', out) \<longrightarrow>
        duplicate_count s \<le> duplicate_count s'
        \<and> (out = AutoDuplicate \<or> out = Acted ResDuplicate \<longrightarrow>
              action_history (state s') = action_history (state s)
              \<and> duplicate_count s' = duplicate_count s + 1))
   \<and> duplicate_count (fst (undo_last_action s)) = duplicate_count s
   \<and> (sorting_loop lib inps s = Some (s'', outs) \<longrightarrow> duplicate_count s \<le> duplicate_count s'')"
proof (intro conjI impI)
  assume "handle_duplicate s p = Some s1"
  then obtain fs where "s1 = s\<lparr>disk := fs\<rparr>" using handle_duplicate_disk_only by blast
  then show "state s1 = state s" "same_counters s s1" by (simp_all add: same_counters_def)
next
  assume it: "loop_iteration lib inp s = Some (s', out)"
  from loop_iteration_step [OF it] show "duplicate_count s \<le> duplicate_count s'" by simp
  assume "out = AutoDuplicate \<or> out = Acted ResDuplicate"
  with loop_iteration_step [OF it]
  show "action_history (state s') = action_history (state s)"
    "duplicate_count s' = duplicate_count s + 1" by blast+
next
  show "duplicate_count (fst (undo_last_action s)) = duplicate_count s" by (rule undo_keeps)
next
  assume "sorting_loop lib inps s = Some (s'', outs)"
  then show "duplicate_count s \<le> duplicate_count s''" by (rule sorting_loop_duplicate_mono)
qed

lemma demo_handle_duplicate:
  "\<exists>fs. handle_duplicate (demo_sorter 0 0 (Some []) demo_disk) ''/r/a.jpg''
          = Some ((demo_sorter 0 0 (Some []) demo_disk)\<lparr>disk := fs\<rparr>)"
proof -
  let ?s = "demo_sorter 0 0 (Some []) demo_disk"
  let ?fs1 = "makedirs demo_disk ''/r/Duplicates''"
  have f: "disk ?s = demo_disk" "root_dir ?s = ''/r''" by (simp_all add: demo_sorter_def)
  have j: "path_join ''/r'' ''Duplicates'' = ''/r/Duplicates''" by (simp add: path_join_def)
  have j2: "path_join ''/r/Duplicates'' (basename ''/r/a.jpg'') = ''/r/Duplicates/a.jpg''"
    by (simp add: path_join_def basename_def)
  have nd: "\<not> path_exists demo_disk ''/r/Duplicates''"
    by (simp add: path_exists_def demo_disk_def)
  have ex: "path_exists ?fs1 ''/r/a.jpg''" "path_exists ?fs1 ''/r/Duplicates''"
    "isdir ?fs1 ''/r/Duplicates''" "\<not> path_exists ?fs1 ''/r/Duplicates/a.jpg''"
    "\<not> isdir ?fs1 ''/r/Duplicates/a.jpg''" "?fs1 ''/r/a.jpg'' = Some (File ''ab'')"
    by (simp_all add: path_exists_def isdir_def makedirs_def demo_disk_def)
  have fr: "\<And>b e. free_dest_path ?fs1 ''/r/Duplicates'' b e ''/r/Duplicates/a.jpg'' (Suc 0)
      = Some ''/r/Duplicates/a.jpg''"
    using ex(4) by (subst free_dest_path.simps) simp
  have par: "parent_error ?fs1 ''/r/Duplicates/a.jpg'' = None"
    by (simp add: parent_error_def dirname_def dirpart_def only_slashes_def makedirs_def)
  have mv: "shutil_move ?fs1 ''/r/a.jpg'' ''/r/Duplicates/a.jpg''
      = Inr ((?fs1(''/r/a.jpg'' := None))(''/r/Duplicates/a.jpg'' \<mapsto> File ''ab''))"
    using ex(6) ex(5) par by (rule shutil_move_plain)
  have mp: "move_photo ?fs1 ''/r/a.jpg'' ''/r/Duplicates''
     = Some (Inr ((?fs1(''/r/a.jpg'' := None))(''/r/Duplicates/a.jpg'' \<mapsto> File ''ab''),
                  ''/r/Duplicates/a.jpg''))"
    by (simp add: move_photo_def Let_def ex j2 fr mv)
  have "handle_duplicate ?s ''/r/a.jpg''
      = Some (?s\<lparr>disk := (?fs1(''/r/a.jpg'' := None))(''/r/Duplicates/a.jpg'' \<mapsto> File ''ab'')\<rparr>)"
    by (simp add: handle_duplicate_def Let_def f j nd mp)
  then show ?thesis by blast
qed

theorem duplicate_moves_stay_out_of_history_witness:
  "\<exists>s1 s'. handle_duplicate (demo_sorter 0 0 (Some []) demo_disk) ''/r/a.jpg'' = Some s1
      \<and> state s1 = state (demo_sorter 0 0 (Some []) demo_disk)
      \<and> loop_iteration demo_library (demo_input (CHR ''u'')) (demo_sorter 0 0 (Some []) demo_disk)
          = Some (s', Acted ResDuplicate)
      \<and> action_history (state s') = Some []
      \<and> duplicate_count s' = 1"
proof -
  let ?s = "demo_sorter 0 0 (Some []) demo_disk"
  let ?i = "demo_input (CHR ''u'')"
  obtain fs where hd: "handle_duplicate ?s ''/r/a.jpg'' = Some (?s\<lparr>disk := fs\<rparr>)"
    using demo_handle_duplicate by blast
  let ?s' = "save_state (?s\<lparr>disk := fs, duplicate_count := duplicate_count ?s + 1,
                               current_index := current_index ?s + 1\<rparr>)"
  have f: "images ?s = [''/r/a.jpg'', ''/r/b.jpg'']" "current_index ?s = 0" "disk ?s = demo_disk"
    "hashes (hash_db ?s) = []" "duplicate_count ?s = 0" "action_history (state ?s) = Some []"
    by (simp_all add: demo_sorter_def demo_state_def)
  have ix: "py_index (images ?s) (current_index ?s) = Inr ''/r/a.jpg''"
    by (simp add: f py_index_def)
  have ex: "path_exists (disk ?s) ''/r/a.jpg''"
    unfolding f(3) by (simp add: path_exists_def demo_disk_def)
  obtain r where dup: "is_duplicate demo_library (disk ?s) ''/r/a.jpg'' (hash_db ?s) (duplicate_threshold ?s)
      = Inr (False, r)"
    using is_duplicate_empty_db [OF f(4)] by blast
  have op: "open_image (disk ?s) (viewer_fails ?i) ''/r/a.jpg'' = None"
    using ex by (simp add: open_image_def demo_input_def)
  have key: "get_keypress (keypress ?i) = Inr (CHR ''U'')" by code_simp
  have hc: "\<And>ef. handle_choice ?i ?s (CHR ''U'') ''/r/a.jpg'' ef = Some (?s, Inr ResDuplicate)"
    by (simp add: handle_choice_def isdigit_def)
  have pp: "present_photo demo_library ?i ?s ''/r/a.jpg'' = Some (?s', Acted ResDuplicate)"
    using op key hc hd by (simp add: present_photo_def)
  have it: "loop_iteration demo_library ?i ?s = Some (?s', Acted ResDuplicate)"
    using ix ex dup pp by (simp add: loop_iteration_def)
  from duplicate_moves_stay_out_of_history
         [where s = ?s and p = "''/r/a.jpg''" and ?s1.0 = "?s\<lparr>disk := fs\<rparr>"
            and lib = demo_library and inp = ?i and s' = ?s' and out = "Acted ResDuplicate"]
       hd it f
  have "state (?s\<lparr>disk := fs\<rparr>) = state ?s" "action_history (state ?s') = Some []"
    "duplicate_count ?s' = 1"
    by simp_all
  with hd it show ?thesis by blast
qed

end
